theory Spec2Isabelle
  imports Complex_Main
begin

section \<open>Data model of \<open>cool_fireworks.py\<close>\<close>

text \<open>
  Conventions of the embedding.
  \<^item> A Python \<open>float\<close> is modelled by the real number it denotes, and \<open>+\<close> and \<open>*\<close> on
    floats by the exact operations on \<open>real\<close>. Comparisons between a float and an \<open>int\<close>
    and the truncation \<open>int(x)\<close> are exact in Python, so they are modelled without loss.
    NaN and the infinities are not represented.
  \<^item> A Python \<open>int\<close> is an \<open>int\<close>.
  \<^item> The field \<open>life\<close> is annotated \<open>float\<close> in the dataclass, but the only
    constructor call of the program passes \<open>random.randint(18, 40)\<close> and a dataclass does
    not convert its arguments: the value is a Python \<open>int\<close>, and it is modelled as one.
  \<^item> A Python \<open>str\<close> is the list of its code points.
\<close>

type_synonym pystr = "nat list"

definition PALETTE :: "int list" where
  "PALETTE = [196, 202, 208, 214, 220, 226, 190, 118, 51, 45, 39, 33, 201, 207]"

record Particle =
  x :: real
  y :: real
  vx :: real
  vy :: real
  life :: int
  colour :: int

subsection \<open>\<open>Particle.step\<close>\<close>

text \<open>
  The method mutates the particle and returns a flag: the model returns the particle after
  the call together with the flag. The assignments are kept in the order of the source.
\<close>

definition Particle_step :: "real \<Rightarrow> real \<Rightarrow> Particle \<Rightarrow> Particle \<times> bool" where
  "Particle_step gravity damping self =
     (if life self \<le> 0 then (self, False)
      else
        let s1 = self\<lparr>x := x self + vx self\<rparr>;
            s2 = s1\<lparr>y := y s1 + vy s1\<rparr>;
            s3 = s2\<lparr>vx := vx s2 * damping\<rparr>;
            s4 = s3\<lparr>vy := vy s3 * damping + gravity\<rparr>;
            s5 = s4\<lparr>life := life s4 - 1\<rparr>
        in (s5, life s5 > 0 \<and> y s5 \<ge> 0))"

text \<open>
  The reference definition of \<open>advance\<close>, written from the words of the specification
  (section 4.1): it is compared with \<open>Particle_step\<close> below.
\<close>

definition advance_spec :: "real \<Rightarrow> real \<Rightarrow> Particle \<Rightarrow> Particle \<times> bool" where
  "advance_spec gravity damping p =
     (if life p \<le> 0 then (p, False)
      else
        (\<lparr>x = x p + vx p, y = y p + vy p,
          vx = vx p * damping, vy = vy p * damping + gravity,
          life = life p - 1, colour = colour p\<rparr>,
         life p - 1 > 0 \<and> y p + vy p \<ge> 0))"


subsection \<open>The \<open>random\<close> module\<close>

text \<open>
  The program draws from the module-level generator of Python's \<open>random\<close>. The generator
  is library code and is a parameter of the model: \<open>'r\<close> is the type of its hidden state,
  and every function takes the state and returns the value drawn with the next state.
  \<open>seed\<close> is \<open>random.seed(n)\<close>, which replaces the state by one computed from \<open>n\<close>.
\<close>

record 'r random_module =
  uniform :: "real \<Rightarrow> real \<Rightarrow> 'r \<Rightarrow> real \<times> 'r"
  randint :: "int \<Rightarrow> int \<Rightarrow> 'r \<Rightarrow> int \<times> 'r"
  randrange :: "int \<Rightarrow> 'r \<Rightarrow> int \<times> 'r"
  choice :: "pystr list \<Rightarrow> 'r \<Rightarrow> pystr \<times> 'r"
  seed :: "int \<Rightarrow> 'r"

text \<open>
  What the library documents of these functions: \<open>uniform(a, b)\<close> and \<open>randint(a, b)\<close>
  return a value between their bounds, \<open>randrange(n)\<close> a value of \<open>range(n)\<close>, and
  \<open>choice(xs)\<close> an element of \<open>xs\<close>.
\<close>

definition random_contract :: "'r random_module \<Rightarrow> bool" where
  "random_contract rnd \<longleftrightarrow>
     (\<forall>a b r. a \<le> b \<longrightarrow> a \<le> fst (uniform rnd a b r) \<and> fst (uniform rnd a b r) \<le> b) \<and>
     (\<forall>a b r. a \<le> b \<longrightarrow> a \<le> fst (randint rnd a b r) \<and> fst (randint rnd a b r) \<le> b) \<and>
     (\<forall>n r. 0 < n \<longrightarrow> 0 \<le> fst (randrange rnd n r) \<and> fst (randrange rnd n r) < n) \<and>
     (\<forall>xs r. xs \<noteq> [] \<longrightarrow> fst (choice rnd xs r) \<in> set xs)"

text \<open>
  A small deterministic generator on which the model can be run: its state counts the
  draws made so far, and the \<open>k\<close>-th draw is a fixed function of \<open>k\<close> and the bounds.
\<close>

definition counter_random :: "nat random_module" where
  "counter_random =
     \<lparr>uniform = (\<lambda>a b r. (a + (b - a) * (real (r mod 4) / 4), Suc r)),
      randint = (\<lambda>a b r. (a + int r mod (b - a + 1), Suc r)),
      randrange = (\<lambda>n r. (int r mod n, Suc r)),
      choice = (\<lambda>xs r. (xs ! (r mod length xs), Suc r)),
      seed = (\<lambda>n. nat \<bar>n\<bar>)\<rparr>"

subsection \<open>\<open>FireworkShow\<close>\<close>

record FireworkShow =
  width :: int
  height :: int
  gravity :: real
  damping :: real
  sparks :: int
  particles :: "Particle list"
  frame_counter :: int

definition FireworkShow_init :: "int \<Rightarrow> int \<Rightarrow> real \<Rightarrow> real \<Rightarrow> int \<Rightarrow> FireworkShow" where
  "FireworkShow_init w h g d sp =
     \<lparr>width = w, height = h, gravity = g, damping = d, sparks = sp,
      particles = [], frame_counter = 0\<rparr>"

text \<open>
  \<open>_create_explosion\<close> is a generator consumed at once by \<open>list.extend\<close>: the loop over
  \<open>range(self.sparks)\<close> is a recursion on the number of sparks still to emit, and the draws
  are made in the order of the source (angle, speed, life, colour index).
  The index \<open>(hue_shift + k) % len(PALETTE)\<close> lies in \<open>range(len(PALETTE))\<close> for every
  \<open>k\<close>, so the subscript cannot raise.
\<close>

fun create_explosion_loop ::
  "'r random_module \<Rightarrow> nat \<Rightarrow> real \<Rightarrow> real \<Rightarrow> real \<Rightarrow> int \<Rightarrow> 'r \<Rightarrow> Particle list \<times> 'r" where
  "create_explosion_loop rnd 0 x0 y0 radius hue_shift r = ([], r)"
| "create_explosion_loop rnd (Suc n) x0 y0 radius hue_shift r =
     (let (angle, r1) = uniform rnd 0 (2 * pi) r;
          (speed, r2) = uniform rnd 0.6 1.6 r1;
          vx0 = cos angle * speed;
          vy0 = sin angle * speed;
          (life0, r3) = randint rnd 18 40 r2;
          (k, r4) = randrange rnd (int (length PALETTE)) r3;
          colour0 = PALETTE ! nat ((hue_shift + k) mod int (length PALETTE));
          (rest, r5) = create_explosion_loop rnd n x0 y0 radius hue_shift r4
      in (\<lparr>x = x0, y = y0, vx = vx0, vy = vy0, life = life0, colour = colour0\<rparr> # rest, r5))"

definition create_explosion ::
  "'r random_module \<Rightarrow> FireworkShow \<Rightarrow> real \<Rightarrow> real \<Rightarrow> real \<Rightarrow> int \<Rightarrow> 'r \<Rightarrow> Particle list \<times> 'r" where
  "create_explosion rnd self x0 y0 radius hue_shift r =
     create_explosion_loop rnd (nat (sparks self)) x0 y0 radius hue_shift r"

definition spawn_firework ::
  "'r random_module \<Rightarrow> FireworkShow \<times> 'r \<Rightarrow> FireworkShow \<times> 'r" where
  "spawn_firework rnd = (\<lambda>(self, r).
     let (radius, r1) = uniform rnd 6 12 r;
         (x0, r2) = uniform rnd (0.2 * of_int (width self)) (0.8 * of_int (width self)) r1;
         (y0, r3) = uniform rnd (0.2 * of_int (height self)) (0.45 * of_int (height self)) r2;
         (hue_shift, r4) = randrange rnd (int (length PALETTE)) r3;
         (new, r5) = create_explosion rnd self x0 y0 radius hue_shift r4
     in (self\<lparr>particles := particles self @ new\<rparr>, r5))"

text \<open>
  The loop of \<open>FireworkShow.step\<close> over the particles, with the list \<open>alive\<close> as
  accumulator.
\<close>

fun step_loop :: "FireworkShow \<Rightarrow> Particle list \<Rightarrow> Particle list \<Rightarrow> Particle list" where
  "step_loop self alive [] = alive"
| "step_loop self alive (particle # rest) =
     (let (p, ok) = Particle_step (gravity self) (damping self) particle
      in if ok then
           (if 0 \<le> x p \<and> x p < of_int (width self) \<and> 0 \<le> y p \<and> y p < of_int (height self)
            then step_loop self (alive @ [p]) rest
            else step_loop self alive rest)
         else step_loop self alive rest)"

text \<open>
  \<open>FireworkShow.step\<close>. Python's \<open>or\<close> evaluates its right operand only when the left
  one is false, so \<open>random.randint(18, 26)\<close> is called only when the list of particles is
  not empty. \<open>randint(18, 26)\<close> does not return 0, so the \<open>ZeroDivisionError\<close> of \<open>%\<close> is
  not a branch of the model; for a positive modulus \<open>mod\<close> on \<open>int\<close> is Python's \<open>%\<close>.
\<close>

definition FireworkShow_step ::
  "'r random_module \<Rightarrow> FireworkShow \<times> 'r \<Rightarrow> FireworkShow \<times> 'r" where
  "FireworkShow_step rnd = (\<lambda>(self, r).
     let (s1, r1) =
           (if particles self = [] then spawn_firework rnd (self, r)
            else
              let (k, r0) = randint rnd 18 26 r
              in if frame_counter self mod k = 0 then spawn_firework rnd (self, r0)
                 else (self, r0));
         alive = step_loop s1 [] (particles s1)
     in (s1\<lparr>particles := alive, frame_counter := frame_counter s1 + 1\<rparr>, r1))"

subsection \<open>Strings\<close>

text \<open>
  \<open>ascii\<close> turns a literal of printable ASCII characters into its code points; the escape
  character is code point 27, the newline 10, the space 32. \<open>str_int\<close> is the decimal text
  of an integer, as an f-string or \<open>str\<close> prints it; \<open>join\<close> is \<open>sep.join(parts)\<close>.
\<close>

definition ascii :: "string \<Rightarrow> pystr" where
  "ascii s = map of_char s"

fun str_nat :: "nat \<Rightarrow> pystr" where
  "str_nat n = (if n < 10 then [48 + n] else str_nat (n div 10) @ [48 + n mod 10])"

declare str_nat.simps [simp del]

definition str_int :: "int \<Rightarrow> pystr" where
  "str_int i = (if i < 0 then 45 # str_nat (nat (- i)) else str_nat (nat i))"

fun join :: "pystr \<Rightarrow> pystr list \<Rightarrow> pystr" where
  "join sep [] = []"
| "join sep [l] = l"
| "join sep (l # ls) = l @ sep @ join sep ls"

text \<open>\<open>s.split(sep)\<close> for a separator of one character: the inverse reading of \<open>join\<close>.\<close>

fun split_on :: "nat \<Rightarrow> pystr \<Rightarrow> pystr list" where
  "split_on sep [] = [[]]"
| "split_on sep (c # cs) =
     (if c = sep then [] # split_on sep cs
      else (case split_on sep cs of [] \<Rightarrow> [[c]] | l # ls \<Rightarrow> (c # l) # ls))"

subsection \<open>\<open>FireworkShow.render\<close>\<close>

text \<open>\<open>int(v)\<close> on a float truncates towards zero.\<close>

definition int_float :: "real \<Rightarrow> int" where
  "int_float v = (if 0 \<le> v then \<lfloor>v\<rfloor> else \<lceil>v\<rceil>)"

text \<open>The four glyphs of the literal list in \<open>render\<close>: \<open>*\<close>, U+2022, U+00B7, U+2736.\<close>

definition GLYPHS :: "pystr list" where
  "GLYPHS = [[42], [8226], [183], [10038]]"

text \<open>
  The loop over the particles. The state it runs in is the show together with the state
  of the generator; \<open>canvas\<close> and \<open>colour_map\<close> are its local grids, lists of rows. The
  test on \<open>ix\<close> and \<open>iy\<close> keeps both subscripts inside the grids, so the assignments
  cannot raise.
\<close>

fun render_loop ::
  "'r random_module \<Rightarrow> pystr list list \<times> int option list list \<Rightarrow> Particle list \<Rightarrow>
   FireworkShow \<times> 'r \<Rightarrow> (pystr list list \<times> int option list list) \<times> (FireworkShow \<times> 'r)" where
  "render_loop rnd (canvas, colour_map) [] (self, r) = ((canvas, colour_map), (self, r))"
| "render_loop rnd (canvas, colour_map) (particle # rest) (self, r) =
     (let ix = int_float (x particle); iy = int_float (y particle)
      in if 0 \<le> ix \<and> ix < width self \<and> 0 \<le> iy \<and> iy < height self then
           let (char, r1) = choice rnd GLYPHS r;
               canvas1 = canvas[nat iy := (canvas ! nat iy)[nat ix := char]];
               colour_map1 =
                 colour_map[nat iy := (colour_map ! nat iy)[nat ix := Some (colour particle)]]
           in render_loop rnd (canvas1, colour_map1) rest (self, r1)
         else render_loop rnd (canvas, colour_map) rest (self, r))"

definition format_cell :: "pystr \<times> int option \<Rightarrow> pystr" where
  "format_cell = (\<lambda>(char, colour).
     if colour = None \<or> char = [32] then char
     else 27 # ascii ''[38;5;'' @ str_int (the colour) @ ascii ''m'' @ char @ 27 # ascii ''[0m'')"

definition format_canvas :: "pystr list list \<Rightarrow> int option list list \<Rightarrow> pystr" where
  "format_canvas canvas colour_map =
     join [10]
       (map (\<lambda>(row, colour_row). concat (map format_cell (zip row colour_row)))
          (zip canvas colour_map))"

definition render ::
  "'r random_module \<Rightarrow> FireworkShow \<times> 'r \<Rightarrow> pystr \<times> (FireworkShow \<times> 'r)" where
  "render rnd = (\<lambda>(self, r).
     let canvas = replicate (nat (height self)) (replicate (nat (width self)) [32]);
         colour_map = replicate (nat (height self)) (replicate (nat (width self)) None);
         ((canvas1, colour_map1), st) =
           render_loop rnd (canvas, colour_map) (particles self) (self, r)
     in (format_canvas canvas1 colour_map1, st))"

subsection \<open>The command line\<close>

text \<open>
  The exceptions the program can end with: \<open>argparse.ArgumentTypeError\<close>, raised by
  \<open>detect_size\<close> (the specification calls it \<open>InvalidSizeArgument\<close>), and the
  \<open>ValueError\<close> of \<open>time.sleep\<close> for a negative interval.
\<close>

datatype exc = ArgumentTypeError | ValueError

text \<open>
  The builtin \<open>int\<close>, applied to a string, and the method \<open>str.lower\<close> belong to the
  interpreter and work from tables over all of Unicode. They are parameters of the model:
  \<open>int_str\<close> returns \<open>None\<close> where \<open>int\<close> raises \<open>ValueError\<close>.
\<close>

record builtins =
  int_str :: "pystr \<Rightarrow> int option"
  lower :: "pystr \<Rightarrow> pystr"

text \<open>\<open>s.split(sep, 1)\<close> cuts at the first separator only.\<close>

definition split1 :: "nat \<Rightarrow> pystr \<Rightarrow> pystr list" where
  "split1 sep s =
     (if sep \<in> set s then [takeWhile (\<lambda>c. c \<noteq> sep) s, tl (dropWhile (\<lambda>c. c \<noteq> sep) s)]
      else [s])"

text \<open>
  What the two builtins do on a string of ASCII characters. \<open>ascii_lower\<close> turns the
  letters \<open>A\<close> to \<open>Z\<close> into \<open>a\<close> to \<open>z\<close>. \<open>ascii_int\<close> reads base 10: the white space of
  ASCII (code points 9 to 13 and 32) is dropped at both ends, one sign is allowed, the
  digits may be grouped by single underscores, and more than 4300 digits are refused
  (the default limit of the interpreter). \<open>builtins_contract\<close> says that the builtins
  agree with these two functions on ASCII strings; it says nothing of other strings.
\<close>

definition ascii_lower :: "pystr \<Rightarrow> pystr" where
  "ascii_lower s = map (\<lambda>c. if 65 \<le> c \<and> c \<le> 90 then c + 32 else c) s"

definition is_digit :: "nat \<Rightarrow> bool" where
  "is_digit c \<longleftrightarrow> 48 \<le> c \<and> c \<le> 57"

definition is_space :: "nat \<Rightarrow> bool" where
  "is_space c \<longleftrightarrow> c = 32 \<or> (9 \<le> c \<and> c \<le> 13)"

fun digits_acc :: "nat \<Rightarrow> pystr \<Rightarrow> nat option" where
  "digits_acc acc [] = Some acc"
| "digits_acc acc (c # cs) =
     (if is_digit c then digits_acc (acc * 10 + (c - 48)) cs
      else if c = 95 then
        (case cs of
           [] \<Rightarrow> None
         | d # ds \<Rightarrow> if is_digit d then digits_acc (acc * 10 + (d - 48)) ds else None)
      else None)"

definition parse_digits :: "pystr \<Rightarrow> nat option" where
  "parse_digits s =
     (if length (filter is_digit s) > 4300 then None
      else case s of [] \<Rightarrow> None
           | c # cs \<Rightarrow> if is_digit c then digits_acc (c - 48) cs else None)"

definition strip :: "pystr \<Rightarrow> pystr" where
  "strip s = rev (dropWhile is_space (rev (dropWhile is_space s)))"

definition ascii_int :: "pystr \<Rightarrow> int option" where
  "ascii_int s =
     (case strip s of
        [] \<Rightarrow> None
      | c # cs \<Rightarrow>
          if c = 45 then map_option (\<lambda>n. - int n) (parse_digits cs)
          else if c = 43 then map_option int (parse_digits cs)
          else map_option int (parse_digits (c # cs)))"

definition is_ascii :: "pystr \<Rightarrow> bool" where
  "is_ascii s \<longleftrightarrow> list_all (\<lambda>c. c < 128) s"

definition builtins_contract :: "builtins \<Rightarrow> bool" where
  "builtins_contract bi \<longleftrightarrow>
     (\<forall>s. is_ascii s \<longrightarrow> int_str bi s = ascii_int s \<and> lower bi s = ascii_lower s)"

text \<open>The builtins cut down to their ASCII behaviour, on which the model can be run.\<close>

definition ascii_builtins :: builtins where
  "ascii_builtins = \<lparr>int_str = ascii_int, lower = ascii_lower\<rparr>"

text \<open>
  \<open>detect_size\<close>. \<open>term\<close> is what \<open>shutil.get_terminal_size((80, 24))\<close> returns. Unpacking
  the result of \<open>split\<close> into two names raises \<open>ValueError\<close> unless it has two parts, as
  \<open>int\<close> does on text it cannot read; the handler turns both into
  \<open>ArgumentTypeError\<close>.
\<close>

definition detect_size :: "builtins \<Rightarrow> int \<times> int \<Rightarrow> pystr \<Rightarrow> exc + int \<times> int" where
  "detect_size bi term size_flag =
     (if size_flag \<noteq> ascii ''auto'' then
        (case split1 120 (lower bi size_flag) of
           [width_str, height_str] \<Rightarrow>
             (case int_str bi width_str of
                None \<Rightarrow> Inl ArgumentTypeError
              | Some w \<Rightarrow>
                  (case int_str bi height_str of
                     None \<Rightarrow> Inl ArgumentTypeError
                   | Some h \<Rightarrow> Inr (w, h)))
         | _ \<Rightarrow> Inl ArgumentTypeError)
      else Inr (max 40 (fst term - 1), max 15 (snd term - 1)))"

text \<open>
  \<open>main\<close>. The namespace that \<open>argparse\<close> returns is a record. The model returns what
  the program has printed, one entry for each call of \<open>print\<close>, and the exception that
  ended it, if any. The inputs that the program does not control are parameters:
  the terminal's size and the state \<open>r\<close> of the generator when the program starts.
  The delay of \<open>time.sleep\<close> is not modelled, only its \<open>ValueError\<close>.
  \<open>main_show\<close> is the part of \<open>main\<close> that comes before the first \<open>print\<close>: it seeds the
  generator, reads the size and constructs the show.
\<close>

record args =
  args_frames :: int
  args_interval :: real
  args_size :: pystr
  args_seed :: "int option"

fun main_loop ::
  "'r random_module \<Rightarrow> args \<Rightarrow> nat \<Rightarrow> int \<Rightarrow> FireworkShow \<times> 'r \<Rightarrow> pystr list \<Rightarrow>
   pystr list \<times> exc option" where
  "main_loop rnd a 0 frame st out = (out, None)"
| "main_loop rnd a (Suc n) frame st out =
     (let st1 = FireworkShow_step rnd st;
          (frame_data, st2) = render rnd st1;
          out1 = out @ [27 # ascii ''[H'' @ frame_data @ [10, 10] @ ascii ''Frame '' @
                        str_int (frame + 1) @ ascii ''/'' @ str_int (args_frames a)]
      in if args_interval a < 0 then (out1, Some ValueError)
         else main_loop rnd a n (frame + 1) st2 out1)"

definition main_show ::
  "'r random_module \<Rightarrow> builtins \<Rightarrow> args \<Rightarrow> int \<times> int \<Rightarrow> 'r \<Rightarrow> exc + FireworkShow \<times> 'r" where
  "main_show rnd bi a term r =
     (let r1 = (case args_seed a of None \<Rightarrow> r | Some n \<Rightarrow> seed rnd n)
      in case detect_size bi term (args_size a) of
           Inl e \<Rightarrow> Inl e
         | Inr (w, h) \<Rightarrow> Inr (FireworkShow_init w h 0.12 0.92 120, r1))"

definition main ::
  "'r random_module \<Rightarrow> builtins \<Rightarrow> args \<Rightarrow> int \<times> int \<Rightarrow> 'r \<Rightarrow> pystr list \<times> exc option" where
  "main rnd bi a term r =
     (case main_show rnd bi a term r of
        Inl e \<Rightarrow> ([], Some e)
      | Inr st \<Rightarrow>
          (let (out, e) = main_loop rnd a (nat (args_frames a)) 0 st [27 # ascii ''[2J'']
           in case e of
                Some err \<Rightarrow> (out, Some err)
              | None \<Rightarrow>
                  (out @ [27 # ascii ''[0m'' @ [10] @ ascii ''Thanks for watching the show!'' @
                          [10, 10]], None)))"

text \<open>The interpreter's exit status: 1 after an exception that nothing caught.\<close>

definition exit_status :: "pystr list \<times> exc option \<Rightarrow> int" where
  "exit_status res = (case snd res of None \<Rightarrow> 0 | Some e \<Rightarrow> 1)"

section \<open>Vocabulary of the claims\<close>

text \<open>
  What the specification asks of a particle of the live collection: a position inside the
  canvas and a positive life.
\<close>

definition in_canvas :: "FireworkShow \<Rightarrow> Particle \<Rightarrow> bool" where
  "in_canvas s p \<longleftrightarrow>
     0 \<le> x p \<and> x p < of_int (width s) \<and> 0 \<le> y p \<and> y p < of_int (height s) \<and> 0 < life p"

text \<open>
  The public methods of a show, and the state after a sequence of calls made on it one
  after the other.
\<close>

datatype call = Spawn_firework | Step | Render

fun run_calls :: "'r random_module \<Rightarrow> call list \<Rightarrow> FireworkShow \<times> 'r \<Rightarrow> FireworkShow \<times> 'r" where
  "run_calls rnd [] st = st"
| "run_calls rnd (c # cs) st =
     run_calls rnd cs
       (case c of
          Spawn_firework \<Rightarrow> spawn_firework rnd st
        | Step \<Rightarrow> FireworkShow_step rnd st
        | Render \<Rightarrow> snd (render rnd st))"

text \<open>
  The second half of \<open>FireworkShow.step\<close>, after the decision to spawn: every particle is
  advanced, the survivors inside the canvas are kept, and the frame counter is increased.
\<close>

definition step_rest :: "FireworkShow \<times> 'r \<Rightarrow> FireworkShow \<times> 'r" where
  "step_rest = (\<lambda>(s1, r1).
     (s1\<lparr>particles := step_loop s1 [] (particles s1), frame_counter := frame_counter s1 + 1\<rparr>, r1))"

text \<open>
  The spawn policy as the specification words it (section 4.2): the modulus is drawn on
  every call, before the test, whether or not the collection is empty.
\<close>

definition step_spec :: "'r random_module \<Rightarrow> FireworkShow \<times> 'r \<Rightarrow> FireworkShow \<times> 'r" where
  "step_spec rnd = (\<lambda>(self, r).
     let (k, r0) = randint rnd 18 26 r
     in step_rest (if particles self = [] \<or> frame_counter self mod k = 0
                   then spawn_firework rnd (self, r0) else (self, r0)))"

text \<open>
  A spark of an explosion at \<open>(x0, y0)\<close> with hue shift \<open>hue\<close>, as the specification
  describes it.
\<close>

definition spark_ok :: "real \<Rightarrow> real \<Rightarrow> int \<Rightarrow> Particle \<Rightarrow> bool" where
  "spark_ok x0 y0 hue p \<longleftrightarrow>
     x p = x0 \<and> y p = y0 \<and> 18 \<le> life p \<and> life p \<le> 40 \<and>
     (\<exists>angle speed. 0 \<le> angle \<and> angle \<le> 2 * pi \<and> 0.6 \<le> speed \<and> speed \<le> 1.6 \<and>
        vx p = cos angle * speed \<and> vy p = sin angle * speed) \<and>
     (\<exists>k. 0 \<le> k \<and> k < int (length PALETTE) \<and>
        colour p = PALETTE ! nat ((hue + k) mod int (length PALETTE)))"

text \<open>The invariant of the live collection: every particle of the show is in its canvas.\<close>

definition live_ok :: "FireworkShow \<Rightarrow> bool" where
  "live_ok s \<longleftrightarrow> list_all (in_canvas s) (particles s)"

text \<open>
  The text of one cell of a frame: a space, or a glyph between the escape sequence that
  selects a colour of the 256-colour palette and the one that resets it.
\<close>

definition rendered_cell :: "pystr \<Rightarrow> bool" where
  "rendered_cell c \<longleftrightarrow>
     c = [32] \<or>
     (\<exists>g col. g \<in> set GLYPHS \<and>
        c = 27 # ascii ''[38;5;'' @ str_int col @ ascii ''m'' @ g @ 27 # ascii ''[0m'')"

text \<open>
  The two grids of \<open>render\<close> go together: a cell is blank in both, or holds a glyph in
  one and a colour in the other. \<open>grid_ok\<close> says so for grids of \<open>h\<close> rows of \<open>w\<close> cells.
\<close>

definition cell_ok :: "pystr \<times> int option \<Rightarrow> bool" where
  "cell_ok = (\<lambda>(char, colour).
     (char = [32] \<and> colour = None) \<or> (char \<in> set GLYPHS \<and> colour \<noteq> None))"

definition row_ok :: "nat \<Rightarrow> pystr list \<times> int option list \<Rightarrow> bool" where
  "row_ok w = (\<lambda>(row, colour_row).
     length row = w \<and> length colour_row = w \<and> list_all cell_ok (zip row colour_row))"

definition grid_ok :: "nat \<Rightarrow> nat \<Rightarrow> pystr list list \<times> int option list list \<Rightarrow> bool" where
  "grid_ok h w = (\<lambda>(canvas, colour_map).
     length canvas = h \<and> length colour_map = h \<and> list_all (row_ok w) (zip canvas colour_map))"

text \<open>
  The particle that a cell of the frame shows: the last particle of the collection whose
  position, truncated, is the cell of row \<open>iy\<close> and column \<open>ix\<close>, if there is one.
\<close>

fun occupant :: "Particle list \<Rightarrow> int \<Rightarrow> int \<Rightarrow> Particle option" where
  "occupant [] iy ix = None"
| "occupant (p # ps) iy ix =
     (case occupant ps iy ix of
        Some q \<Rightarrow> Some q
      | None \<Rightarrow> if int_float (x p) = ix \<and> int_float (y p) = iy then Some p else None)"

text \<open>The glyph and the colour that the two grids of \<open>render\<close> hold for one cell.\<close>

definition cell_at ::
  "pystr list list \<times> int option list list \<Rightarrow> nat \<Rightarrow> nat \<Rightarrow> pystr \<times> int option" where
  "cell_at g i j = (fst g ! i ! j, snd g ! i ! j)"

section \<open>The particle step\<close>

text \<open>
  Claim C1. For every particle, \<open>advance(gravity, damping)\<close> behaves as the reference
  definition: with \<open>life \<le> 0\<close> at entry nothing changes and the call reports not-alive;
  otherwise the pre-update velocity is added to the position, \<open>vx\<close> becomes
  \<open>vx * damping\<close>, \<open>vy\<close> becomes \<open>vy * damping + gravity\<close>, \<open>life\<close> drops by exactly
  one, and the call reports alive exactly when the new life is positive and the new
  \<open>y\<close> is not negative.
\<close>

theorem Particle_step_refines_advance:
  "Particle_step g d p = advance_spec g d p"
  by (cases p) (simp add: Particle_step_def advance_spec_def Let_def)


text \<open>
  Claim C5 (as amended). A particle at \<open>(5.0, 5.0)\<close> with velocity \<open>(0, 0)\<close> and
  \<open>life = 1\<close>, advanced with gravity 0.12 and damping 0.92, ends with \<open>life = 0\<close> and is
  reported not-alive; its position is still \<open>(5.0, 5.0)\<close>, since the position is updated
  with the velocity of before the call, and \<open>vy\<close> becomes 0.12. On this input every
  operation adds or multiplies by zero, which is exact on floats as well.
\<close>

theorem scenario_particle_position_kept:
  "Particle_step 0.12 0.92 \<lparr>x = 5, y = 5, vx = 0, vy = 0, life = 1, colour = c\<rparr> =
     (\<lparr>x = 5, y = 5, vx = 0, vy = 0.12, life = 0, colour = c\<rparr>, False)"
  by (simp add: Particle_step_def)

text \<open>
  The claim as the specification's headline states it, with the position \<open>(5.0, 5.12)\<close>,
  does not hold: \<open>y\<close> is 5.0 after the call.
\<close>

theorem scenario_particle_y_not_5_12:
  "y (fst (Particle_step 0.12 0.92
             \<lparr>x = 5, y = 5, vx = 0, vy = 0, life = 1, colour = 196\<rparr>)) \<noteq> 5.12"
  by (simp add: Particle_step_def)

section \<open>The generator used to run the model\<close>

lemma counter_uniform_bounds:
  assumes "a \<le> (b::real)"
  shows "a \<le> a + (b - a) * (real (r mod 4) / 4) \<and> a + (b - a) * (real (r mod 4) / 4) \<le> b"
proof -
  have q0: "0 \<le> real (r mod 4) / 4" by simp
  have "r mod 4 < 4" by simp
  then have q1: "real (r mod 4) / 4 \<le> 1" by simp
  have "(b - a) * (real (r mod 4) / 4) \<le> (b - a) * 1"
    using assms q1 by (intro mult_left_mono) auto
  moreover have "0 \<le> (b - a) * (real (r mod 4) / 4)"
    using assms q0 by (intro mult_nonneg_nonneg) auto
  ultimately show ?thesis by simp
qed

lemma counter_randint_bounds:
  assumes "a \<le> (b::int)"
  shows "a \<le> a + int r mod (b - a + 1) \<and> a + int r mod (b - a + 1) \<le> b"
proof -
  from assms have pos: "0 < b - a + 1" by simp
  have "0 \<le> int r mod (b - a + 1)" using pos by simp
  moreover have "int r mod (b - a + 1) < b - a + 1" using pos by (rule pos_mod_bound)
  ultimately show ?thesis by simp
qed

lemma counter_random_contract: "random_contract counter_random"
  unfolding random_contract_def
proof (intro conjI allI impI)
  fix a b :: real and r :: nat assume "a \<le> b"
  from counter_uniform_bounds[OF this, of r]
  show "a \<le> fst (uniform counter_random a b r)" "fst (uniform counter_random a b r) \<le> b"
    by (simp_all add: counter_random_def)
next
  fix a b :: int and r :: nat assume "a \<le> b"
  from counter_randint_bounds[OF this, of r]
  show "a \<le> fst (randint counter_random a b r)" "fst (randint counter_random a b r) \<le> b"
    by (simp_all add: counter_random_def)
next
  fix n :: int and r :: nat assume "0 < n"
  then show "0 \<le> fst (randrange counter_random n r)" "fst (randrange counter_random n r) < n"
    by (simp_all add: counter_random_def)
next
  fix xs :: "pystr list" and r :: nat assume "xs \<noteq> []"
  then show "fst (choice counter_random xs r) \<in> set xs"
    by (simp add: counter_random_def)
qed

lemma contract_uniform:
  "random_contract rnd \<Longrightarrow> a \<le> b \<Longrightarrow>
   a \<le> fst (uniform rnd a b r) \<and> fst (uniform rnd a b r) \<le> b"
  by (simp add: random_contract_def)

lemma contract_randint:
  "random_contract rnd \<Longrightarrow> a \<le> b \<Longrightarrow>
   a \<le> fst (randint rnd a b r) \<and> fst (randint rnd a b r) \<le> b"
  by (simp add: random_contract_def)

lemma contract_randrange:
  "random_contract rnd \<Longrightarrow> 0 < n \<Longrightarrow>
   0 \<le> fst (randrange rnd n r) \<and> fst (randrange rnd n r) < n"
  by (simp add: random_contract_def)

lemma contract_choice:
  "random_contract rnd \<Longrightarrow> xs \<noteq> [] \<Longrightarrow> fst (choice rnd xs r) \<in> set xs"
  by (simp add: random_contract_def)

lemma length_PALETTE: "length PALETTE = 14"
  by (simp add: PALETTE_def)

section \<open>The spawn policy of \<open>step\<close>\<close>

lemma step_draws_counted:
  "snd (FireworkShow_step counter_random (FireworkShow_init 10 10 0.12 0.92 1, 0)) = 8"
  by (simp add: FireworkShow_step_def FireworkShow_init_def spawn_firework_def
      counter_random_def create_explosion_def PALETTE_def Let_def split_def)

lemma step_spec_draws_counted:
  "snd (step_spec counter_random (FireworkShow_init 10 10 0.12 0.92 1, 0)) = 9"
  by (simp add: step_spec_def step_rest_def FireworkShow_init_def spawn_firework_def
      counter_random_def create_explosion_def PALETTE_def Let_def split_def)

text \<open>
  Claim C3 as stated fails. On a show with no particle the code makes no draw for the
  modulus: with the counting generator, a step of a new show with one spark per explosion
  leaves the counter at 8 (four draws of \<open>spawn_firework\<close>, four for the spark), where
  the policy of the specification leaves it at 9.
\<close>

theorem step_differs_from_spec_on_empty_show:
  "FireworkShow_step counter_random (FireworkShow_init 10 10 0.12 0.92 1, 0) \<noteq>
   step_spec counter_random (FireworkShow_init 10 10 0.12 0.92 1, 0)"
proof
  assume "FireworkShow_step counter_random (FireworkShow_init 10 10 0.12 0.92 1, 0) =
          step_spec counter_random (FireworkShow_init 10 10 0.12 0.92 1, 0)"
  then have "(8::nat) = 9"
    using step_draws_counted step_spec_draws_counted by simp
  then show False by simp
qed

text \<open>
  Claim C3 (as amended). When the live collection is empty, \<open>step\<close> spawns a firework
  without drawing a modulus. When it is not empty, \<open>step\<close> first draws a fresh integer
  \<open>k\<close> of \<open>[18, 26]\<close>, and spawns a firework exactly when \<open>frame_counter mod k = 0\<close>. In
  both cases the rest of the step follows.
\<close>

theorem step_spawn_policy:
  assumes "random_contract rnd"
  shows "(particles s = [] \<longrightarrow>
           FireworkShow_step rnd (s, r) = step_rest (spawn_firework rnd (s, r))) \<and>
         (particles s \<noteq> [] \<longrightarrow>
           18 \<le> fst (randint rnd 18 26 r) \<and> fst (randint rnd 18 26 r) \<le> 26 \<and>
           FireworkShow_step rnd (s, r) =
             step_rest (if frame_counter s mod fst (randint rnd 18 26 r) = 0
                        then spawn_firework rnd (s, snd (randint rnd 18 26 r))
                        else (s, snd (randint rnd 18 26 r))))"
  using contract_randint[OF assms, of 18 26 r]
  by (simp add: FireworkShow_step_def step_rest_def Let_def split_def)

theorem step_spawn_policy_witness:
  "random_contract counter_random \<and>
   particles (FireworkShow_init 10 10 0.12 0.92 1) = [] \<and>
   FireworkShow_step counter_random (FireworkShow_init 10 10 0.12 0.92 1, 0) =
     step_rest (spawn_firework counter_random (FireworkShow_init 10 10 0.12 0.92 1, 0)) \<and>
   particles \<lparr>width = 10, height = 10, gravity = 0.12, damping = 0.92, sparks = 1,
     particles = [\<lparr>x = 5, y = 5, vx = 0, vy = 0, life = 3, colour = 196\<rparr>],
     frame_counter = 5\<rparr> \<noteq> [] \<and>
   fst (randint counter_random 18 26 0) = 18 \<and>
   FireworkShow_step counter_random
     (\<lparr>width = 10, height = 10, gravity = 0.12, damping = 0.92, sparks = 1,
       particles = [\<lparr>x = 5, y = 5, vx = 0, vy = 0, life = 3, colour = 196\<rparr>],
       frame_counter = 5\<rparr>, 0) =
     step_rest
       (\<lparr>width = 10, height = 10, gravity = 0.12, damping = 0.92, sparks = 1,
         particles = [\<lparr>x = 5, y = 5, vx = 0, vy = 0, life = 3, colour = 196\<rparr>],
         frame_counter = 5\<rparr>, 1)"
proof -
  have k: "randint counter_random 18 26 0 = (18, 1)"
    by (simp add: counter_random_def)
  from k
    step_spawn_policy[OF counter_random_contract, of "FireworkShow_init 10 10 0.12 0.92 1" 0]
    step_spawn_policy[OF counter_random_contract,
      of "\<lparr>width = 10, height = 10, gravity = 0.12, damping = 0.92, sparks = 1,
           particles = [\<lparr>x = 5, y = 5, vx = 0, vy = 0, life = 3, colour = 196\<rparr>],
           frame_counter = 5\<rparr>" 0]
    counter_random_contract
  show ?thesis by (simp add: FireworkShow_init_def)
qed

section \<open>\<open>render\<close> leaves the simulation as it is\<close>

lemma render_loop_show: "fst (snd (render_loop rnd g ps (s, r))) = s"
  by (induction rnd g ps "(s, r)" arbitrary: r rule: render_loop.induct)
     (auto simp: Let_def split: prod.splits)

text \<open>
  Claim C8. \<open>render\<close> does not change the simulation: the show after the call is the show
  before it, with every field (\<open>width\<close>, \<open>height\<close>, \<open>gravity\<close>, \<open>damping\<close>, \<open>sparks\<close>,
  \<open>frame_counter\<close>) and every particle as it was. Only the generator has moved on.
\<close>

theorem render_leaves_show:
  "fst (snd (render rnd (s, r))) = s"
proof -
  obtain c m st where e:
    "render_loop rnd (replicate (nat (height s)) (replicate (nat (width s)) [32]),
       replicate (nat (height s)) (replicate (nat (width s)) None)) (particles s) (s, r) =
     ((c, m), st)"
    by (metis surj_pair)
  from render_loop_show[of rnd _ "particles s" s r] e have "fst st = s"
    by (metis snd_conv)
  with e show ?thesis by (simp add: render_def)
qed


section \<open>What \<open>spawn_firework\<close> adds\<close>

lemma explosion_loop_sparks:
  assumes c: "random_contract rnd"
  shows "length (fst (create_explosion_loop rnd n x0 y0 radius hue r)) = n \<and>
         list_all (spark_ok x0 y0 hue) (fst (create_explosion_loop rnd n x0 y0 radius hue r))"
proof (induction n arbitrary: r)
  case 0 show ?case by simp
next
  case (Suc n)
  define angle where "angle = fst (uniform rnd 0 (2 * pi) r)"
  define r1 where "r1 = snd (uniform rnd 0 (2 * pi) r)"
  define speed where "speed = fst (uniform rnd 0.6 1.6 r1)"
  define r2 where "r2 = snd (uniform rnd 0.6 1.6 r1)"
  define l where "l = fst (randint rnd 18 40 r2)"
  define r3 where "r3 = snd (randint rnd 18 40 r2)"
  define k where "k = fst (randrange rnd (int (length PALETTE)) r3)"
  define r4 where "r4 = snd (randrange rnd (int (length PALETTE)) r3)"
  define p where "p = \<lparr>x = x0, y = y0, vx = cos angle * speed, vy = sin angle * speed, life = l,
      colour = PALETTE ! nat ((hue + k) mod int (length PALETTE))\<rparr>"
  have unf: "fst (create_explosion_loop rnd (Suc n) x0 y0 radius hue r) =
      p # fst (create_explosion_loop rnd n x0 y0 radius hue r4)"
    by (simp add: split_def Let_def p_def angle_def r1_def speed_def r2_def l_def r3_def k_def r4_def)
  have a: "0 \<le> angle \<and> angle \<le> 2 * pi"
    unfolding angle_def using contract_uniform[OF c, of 0 "2 * pi" r] by simp
  have s: "0.6 \<le> speed \<and> speed \<le> 1.6"
    unfolding speed_def using contract_uniform[OF c, of "0.6" "1.6" r1] by simp
  have li: "18 \<le> l \<and> l \<le> 40"
    unfolding l_def using contract_randint[OF c, of 18 40 r2] by simp
  have ki: "0 \<le> k \<and> k < int (length PALETTE)"
    unfolding k_def using contract_randrange[OF c, of "int (length PALETTE)" r3] by (simp add: length_PALETTE)
  have "spark_ok x0 y0 hue p"
    unfolding spark_ok_def using a s li ki by (auto simp: p_def)
  with Suc[of r4] unf show ?case by simp
qed

lemma spark_magnitude:
  assumes "spark_ok x0 y0 hue p"
  shows "0.6 \<le> sqrt ((vx p)\<^sup>2 + (vy p)\<^sup>2) \<and> sqrt ((vx p)\<^sup>2 + (vy p)\<^sup>2) \<le> 1.6"
proof -
  from assms obtain angle speed where h: "0.6 \<le> speed" "speed \<le> 1.6"
     "vx p = cos angle * speed" "vy p = sin angle * speed"
    unfolding spark_ok_def by blast
  have "(vx p)\<^sup>2 + (vy p)\<^sup>2 = speed\<^sup>2 * ((cos angle)\<^sup>2 + (sin angle)\<^sup>2)"
    by (simp only: h power_mult_distrib distrib_left mult.commute)
  also have "\<dots> = speed\<^sup>2" by simp
  finally have "sqrt ((vx p)\<^sup>2 + (vy p)\<^sup>2) = \<bar>speed\<bar>" by simp
  with h show ?thesis by simp
qed


lemma spawn_unfold:
  "\<exists>new x0 y0 hue r'.
     spawn_firework rnd (s, r) = (s\<lparr>particles := particles s @ new\<rparr>, r') \<and>
     (\<exists>r1. x0 = fst (uniform rnd (0.2 * of_int (width s)) (0.8 * of_int (width s)) r1)) \<and>
     (\<exists>r2. y0 = fst (uniform rnd (0.2 * of_int (height s)) (0.45 * of_int (height s)) r2)) \<and>
     (\<exists>r3. hue = fst (randrange rnd (int (length PALETTE)) r3)) \<and>
     (\<exists>radius r4. new = fst (create_explosion_loop rnd (nat (sparks s)) x0 y0 radius hue r4))"
  apply (simp add: spawn_firework_def create_explosion_def split_def Let_def)
  by blast

lemma spawn_sparks:
  assumes c: "random_contract rnd" and w: "0 \<le> width s" and h: "0 \<le> height s"
  shows "\<exists>new x0 y0 hue.
     fst (spawn_firework rnd (s, r)) = s\<lparr>particles := particles s @ new\<rparr> \<and>
     length new = nat (sparks s) \<and>
     0.2 * of_int (width s) \<le> x0 \<and> x0 \<le> 0.8 * of_int (width s) \<and>
     0.2 * of_int (height s) \<le> y0 \<and> y0 \<le> 0.45 * of_int (height s) \<and>
     0 \<le> hue \<and> hue < int (length PALETTE) \<and>
     list_all (spark_ok x0 y0 hue) new"
proof -
  from spawn_unfold[of rnd s r] obtain new x0 y0 hue r' r1 r2 r3 radius r4 where
    e: "spawn_firework rnd (s, r) = (s\<lparr>particles := particles s @ new\<rparr>, r')"
    and x0: "x0 = fst (uniform rnd (0.2 * of_int (width s)) (0.8 * of_int (width s)) r1)"
    and y0: "y0 = fst (uniform rnd (0.2 * of_int (height s)) (0.45 * of_int (height s)) r2)"
    and hue: "hue = fst (randrange rnd (int (length PALETTE)) r3)"
    and new: "new = fst (create_explosion_loop rnd (nat (sparks s)) x0 y0 radius hue r4)"
    by blast
  have wle: "0.2 * real_of_int (width s) \<le> 0.8 * real_of_int (width s)" using w by simp
  have hle: "0.2 * real_of_int (height s) \<le> 0.45 * real_of_int (height s)" using h by simp
  note bx = contract_uniform[OF c wle, of r1, folded x0]
  note by' = contract_uniform[OF c hle, of r2, folded y0]
  have bh: "0 \<le> hue \<and> hue < int (length PALETTE)"
    unfolding hue using contract_randrange[OF c, of "int (length PALETTE)" r3] by (simp add: length_PALETTE)
  note ex = explosion_loop_sparks[OF c, of "nat (sparks s)" x0 y0 radius hue r4, folded new]
  from e bx by' bh ex show ?thesis by auto
qed



text \<open>
  Claim C4. A call of \<open>spawn_firework\<close> appends exactly \<open>sparks\<close> particles to the live
  collection and changes nothing else of the show. There are a centre \<open>(x0, y0)\<close> with
  \<open>x0\<close> in \<open>[0.2 * width, 0.8 * width]\<close> and \<open>y0\<close> in \<open>[0.2 * height, 0.45 * height]\<close> and
  a hue shift such that every new particle sits at the centre, has an integer life in
  \<open>[18, 40]\<close>, the velocity \<open>(cos angle * speed, sin angle * speed)\<close> for some angle and
  some speed of \<open>[0.6, 1.6]\<close>, and the colour
  \<open>PALETTE[(hue_shift + k) mod len(PALETTE)]\<close> for some index \<open>k\<close> of the palette. With
  exact arithmetic the magnitude of the velocity is the speed, so it lies in
  \<open>[0.6, 1.6]\<close> too. The hypotheses are the documented ranges of the \<open>random\<close> functions
  and the data model of the specification (no negative \<open>width\<close>, \<open>height\<close> or \<open>sparks\<close>).
\<close>

theorem spawn_firework_adds_sparks:
  assumes "random_contract rnd" and "0 \<le> width s" and "0 \<le> height s" and "0 \<le> sparks s"
  shows "\<exists>new x0 y0 hue.
     fst (spawn_firework rnd (s, r)) = s\<lparr>particles := particles s @ new\<rparr> \<and>
     int (length new) = sparks s \<and>
     0.2 * of_int (width s) \<le> x0 \<and> x0 \<le> 0.8 * of_int (width s) \<and>
     0.2 * of_int (height s) \<le> y0 \<and> y0 \<le> 0.45 * of_int (height s) \<and>
     0 \<le> hue \<and> hue < int (length PALETTE) \<and>
     list_all (spark_ok x0 y0 hue) new \<and>
     list_all (\<lambda>p. 0.6 \<le> sqrt ((vx p)\<^sup>2 + (vy p)\<^sup>2) \<and> sqrt ((vx p)\<^sup>2 + (vy p)\<^sup>2) \<le> 1.6) new"
proof -
  from spawn_sparks[OF assms(1-3), of r] obtain new x0 y0 hue where
    e: "fst (spawn_firework rnd (s, r)) = s\<lparr>particles := particles s @ new\<rparr>"
    and n: "length new = nat (sparks s)"
    and b: "0.2 * of_int (width s) \<le> x0" "x0 \<le> 0.8 * of_int (width s)"
     "0.2 * of_int (height s) \<le> y0" "y0 \<le> 0.45 * of_int (height s)"
     "0 \<le> hue" "hue < int (length PALETTE)"
    and ok: "list_all (spark_ok x0 y0 hue) new"
    by blast
  from n assms(4) have n': "int (length new) = sparks s" by simp
  from ok have m: "list_all (\<lambda>p. 0.6 \<le> sqrt ((vx p)\<^sup>2 + (vy p)\<^sup>2) \<and> sqrt ((vx p)\<^sup>2 + (vy p)\<^sup>2) \<le> 1.6) new"
    unfolding list_all_iff using spark_magnitude by blast
  from e n' b ok m show ?thesis by blast
qed

theorem spawn_firework_adds_sparks_witness:
  "random_contract counter_random \<and>
   0 \<le> width (FireworkShow_init 10 10 0.12 0.92 3) \<and>
   0 \<le> height (FireworkShow_init 10 10 0.12 0.92 3) \<and>
   0 \<le> sparks (FireworkShow_init 10 10 0.12 0.92 3) \<and>
   (\<exists>new x0 y0 hue.
     fst (spawn_firework counter_random (FireworkShow_init 10 10 0.12 0.92 3, 0)) =
       (FireworkShow_init 10 10 0.12 0.92 3)\<lparr>particles := new\<rparr> \<and>
     length new = 3 \<and> 2 \<le> x0 \<and> x0 \<le> 8 \<and> 2 \<le> y0 \<and> y0 \<le> 4.5 \<and>
     list_all (spark_ok x0 y0 hue) new)"
proof -
  have h: "0 \<le> width (FireworkShow_init 10 10 0.12 0.92 3)"
      "0 \<le> height (FireworkShow_init 10 10 0.12 0.92 3)"
      "0 \<le> sparks (FireworkShow_init 10 10 0.12 0.92 3)"
    by (simp_all add: FireworkShow_init_def)
  from spawn_firework_adds_sparks[OF counter_random_contract h, of 0]
  obtain new x0 y0 hue where
    "fst (spawn_firework counter_random (FireworkShow_init 10 10 0.12 0.92 3, 0)) =
       (FireworkShow_init 10 10 0.12 0.92 3)\<lparr>particles := particles (FireworkShow_init 10 10 0.12 0.92 3) @ new\<rparr>"
    "int (length new) = sparks (FireworkShow_init 10 10 0.12 0.92 3)"
    "0.2 * of_int (width (FireworkShow_init 10 10 0.12 0.92 3)) \<le> x0"
    "x0 \<le> 0.8 * of_int (width (FireworkShow_init 10 10 0.12 0.92 3))"
    "0.2 * of_int (height (FireworkShow_init 10 10 0.12 0.92 3)) \<le> y0"
    "y0 \<le> 0.45 * of_int (height (FireworkShow_init 10 10 0.12 0.92 3))"
    "list_all (spark_ok x0 y0 hue) new"
    by blast
  then have "fst (spawn_firework counter_random (FireworkShow_init 10 10 0.12 0.92 3, 0)) =
       (FireworkShow_init 10 10 0.12 0.92 3)\<lparr>particles := new\<rparr> \<and>
     length new = 3 \<and> 2 \<le> x0 \<and> x0 \<le> 8 \<and> 2 \<le> y0 \<and> y0 \<le> 4.5 \<and>
     list_all (spark_ok x0 y0 hue) new"
    by (simp add: FireworkShow_init_def)
  then show ?thesis using counter_random_contract h by blast
qed

section \<open>The invariant of the live collection\<close>

lemma in_canvas_particles_update: "in_canvas (s\<lparr>particles := ps\<rparr>) = in_canvas s"
  by (rule ext) (simp add: in_canvas_def)

lemma spark_in_canvas:
  assumes "spark_ok x0 y0 hue p" and "0 < width s" and "0 < height s"
    and "0.2 * of_int (width s) \<le> x0" and "x0 \<le> 0.8 * of_int (width s)"
    and "0.2 * of_int (height s) \<le> y0" and "y0 \<le> 0.45 * of_int (height s)"
  shows "in_canvas s p"
proof -
  from assms(1) have e: "x p = x0" "y p = y0" "18 \<le> life p" by (simp_all add: spark_ok_def)
  have "0 < real_of_int (width s)" "0 < real_of_int (height s)" using assms(2,3) by simp_all
  then show ?thesis using assms(4-7) e by (simp add: in_canvas_def)
qed

lemma spawn_live:
  assumes c: "random_contract rnd" and w: "0 < width s" and h: "0 < height s"
    and l: "live_ok s"
  shows "live_ok (fst (spawn_firework rnd (s, r)))"
proof -
  from w h have w0: "0 \<le> width s" and h0: "0 \<le> height s" by simp_all
  from spawn_sparks[OF c w0 h0, of r] obtain new x0 y0 hue where
    e: "fst (spawn_firework rnd (s, r)) = s\<lparr>particles := particles s @ new\<rparr>"
    and b: "0.2 * of_int (width s) \<le> x0" "x0 \<le> 0.8 * of_int (width s)"
     "0.2 * of_int (height s) \<le> y0" "y0 \<le> 0.45 * of_int (height s)"
    and ok: "list_all (spark_ok x0 y0 hue) new"
    by blast
  from ok have "list_all (in_canvas s) new"
    unfolding list_all_iff using spark_in_canvas[OF _ w h b] by blast
  with l show ?thesis by (simp add: e live_ok_def in_canvas_particles_update)
qed


lemma Particle_step_alive_life: "Particle_step g d p = (q, True) \<Longrightarrow> 0 < life q"
  by (auto simp: Particle_step_def Let_def split: if_splits)

lemma step_loop_in_canvas:
  "list_all (in_canvas s) alive \<Longrightarrow> list_all (in_canvas s) (step_loop s alive ps)"
proof (induction ps arbitrary: alive)
  case Nil
  then show ?case by simp
next
  case (Cons p ps)
  obtain q ok where e: "Particle_step (gravity s) (damping s) p = (q, ok)"
    by (metis surj_pair)
  show ?case
  proof (cases ok)
    case True
    with e have "0 < life q" by (simp add: Particle_step_alive_life)
    with Cons e True show ?thesis by (simp add: in_canvas_def)
  next
    case False
    with Cons e show ?thesis by simp
  qed
qed

lemma spawn_dims:
  "width (fst (spawn_firework rnd st)) = width (fst st)"
  "height (fst (spawn_firework rnd st)) = height (fst st)"
  by (cases st; simp add: spawn_firework_def split_def Let_def)+

lemma step_dims:
  "width (fst (FireworkShow_step rnd st)) = width (fst st)"
  "height (fst (FireworkShow_step rnd st)) = height (fst st)"
  by (cases st; simp add: FireworkShow_step_def split_def Let_def spawn_dims)+

lemma step_live: "live_ok (fst (FireworkShow_step rnd st))"
proof -
  obtain s r where st: "st = (s, r)" by (cases st)
  define s1 where "s1 = fst (if particles s = [] then spawn_firework rnd (s, r)
            else
              let (k, r0) = randint rnd 18 26 r
              in if frame_counter s mod k = 0 then spawn_firework rnd (s, r0)
                 else (s, r0))"
  have e: "fst (FireworkShow_step rnd st) =
      s1\<lparr>particles := step_loop s1 [] (particles s1), frame_counter := frame_counter s1 + 1\<rparr>"
    by (simp add: st FireworkShow_step_def split_def Let_def s1_def)
  have "list_all (in_canvas s1) (step_loop s1 [] (particles s1))"
    by (rule step_loop_in_canvas) simp
  moreover have "in_canvas (s1\<lparr>particles := step_loop s1 [] (particles s1), frame_counter := frame_counter s1 + 1\<rparr>) = in_canvas s1"
    by (rule ext) (simp add: in_canvas_def)
  ultimately show ?thesis by (simp add: e live_ok_def)
qed

lemma run_calls_invariant:
  assumes c: "random_contract rnd" and w: "0 < w" and h: "0 < h"
  shows "width (fst st) = w \<and> height (fst st) = h \<and> live_ok (fst st) \<Longrightarrow>
         width (fst (run_calls rnd cs st)) = w \<and> height (fst (run_calls rnd cs st)) = h \<and>
         live_ok (fst (run_calls rnd cs st))"
proof (induction cs arbitrary: st)
  case Nil
  then show ?case by simp
next
  case (Cons c cs)
  obtain s r where st: "st = (s, r)" by (cases st)
  show ?case
  proof (cases c)
    case Spawn_firework
    from Cons.prems st w h have "live_ok (fst (spawn_firework rnd (s, r)))"
      by (intro spawn_live[OF c]) simp_all
    with Cons.prems st have "width (fst (spawn_firework rnd st)) = w \<and>
        height (fst (spawn_firework rnd st)) = h \<and> live_ok (fst (spawn_firework rnd st))"
      by (simp add: spawn_dims)
    from Cons.IH[OF this] Spawn_firework show ?thesis by simp
  next
    case Step
    from Cons.prems have "width (fst (FireworkShow_step rnd st)) = w \<and>
        height (fst (FireworkShow_step rnd st)) = h \<and> live_ok (fst (FireworkShow_step rnd st))"
      by (simp add: step_dims step_live)
    from Cons.IH[OF this] Step show ?thesis by simp
  next
    case Render
    have "fst (snd (render rnd st)) = fst st"
      unfolding st using render_loop_show[of rnd _ "particles s" s r]
      by (simp add: render_def split_def Let_def)
    with Cons.prems have "width (fst (snd (render rnd st))) = w \<and>
        height (fst (snd (render rnd st))) = h \<and> live_ok (fst (snd (render rnd st)))"
      by simp
    from Cons.IH[OF this] Render show ?thesis by simp
  qed
qed

text \<open>
  Claim C2. From a show constructed with a positive \<open>width\<close> and \<open>height\<close>, as the data
  model requires, after any sequence of calls of \<open>spawn_firework\<close>, \<open>step\<close> and \<open>render\<close>
  every particle of the live collection has \<open>0 \<le> x < width\<close>, \<open>0 \<le> y < height\<close> and
  \<open>life > 0\<close>. In particular, and for any state whatever, \<open>step\<close> leaves no particle in
  the collection with a position outside the canvas or a life that is not positive.
\<close>

theorem live_particles_in_canvas:
  assumes "random_contract rnd" and "0 < w" and "0 < h"
  shows "live_ok (fst (run_calls rnd cs (FireworkShow_init w h g d sp, r))) \<and>
         live_ok (fst (FireworkShow_step rnd st))"
proof -
  have "width (fst (FireworkShow_init w h g d sp, r)) = w \<and>
        height (fst (FireworkShow_init w h g d sp, r)) = h \<and>
        live_ok (fst (FireworkShow_init w h g d sp, r))"
    by (simp add: FireworkShow_init_def live_ok_def)
  from run_calls_invariant[OF assms this] step_live show ?thesis by blast
qed

theorem live_particles_in_canvas_witness:
  "random_contract counter_random \<and> (0::int) < 10 \<and>
   live_ok (fst (run_calls counter_random [Step, Render, Spawn_firework, Step]
                   (FireworkShow_init 10 10 0.12 0.92 5, 0)))"
proof -
  have "(0::int) < 10" by simp
  from live_particles_in_canvas[OF counter_random_contract this this] counter_random_contract
  show ?thesis by simp
qed


section \<open>The size argument\<close>

lemma ascii_builtins_contract: "builtins_contract ascii_builtins"
  by (simp add: builtins_contract_def ascii_builtins_def)

lemma is_ascii_lower: "is_ascii s \<Longrightarrow> is_ascii (ascii_lower s)"
  by (auto simp: is_ascii_def ascii_lower_def list_all_iff)

lemma is_ascii_split1: "is_ascii s \<Longrightarrow> p \<in> set (split1 sep s) \<Longrightarrow> is_ascii p"
proof -
  assume a: "is_ascii s" and p: "p \<in> set (split1 sep s)"
  have 1: "set (takeWhile (\<lambda>c. c \<noteq> sep) s) \<subseteq> set s"
    by (auto dest: set_takeWhileD)
  have "set (tl (dropWhile (\<lambda>c. c \<noteq> sep) s)) \<subseteq> set (dropWhile (\<lambda>c. c \<noteq> sep) s)"
    by (metis list.set_sel(2) subsetI tl_Nil)
  also have "\<dots> \<subseteq> set s" by (auto dest: set_dropWhileD)
  finally have 2: "set (tl (dropWhile (\<lambda>c. c \<noteq> sep) s)) \<subseteq> set s" .
  from p have "set p \<subseteq> set s"
    using 1 2 by (auto simp: split1_def split: if_splits)
  with a show ?thesis by (auto simp: is_ascii_def list_all_iff)
qed

lemma detect_size_ascii:
  assumes c: "builtins_contract bi" and a: "is_ascii size_flag"
  shows "detect_size bi t size_flag = detect_size ascii_builtins t size_flag"
proof -
  from c a have l: "lower bi size_flag = ascii_lower size_flag"
    by (simp add: builtins_contract_def)
  have i: "int_str bi p = ascii_int p" if "p \<in> set (split1 120 (ascii_lower size_flag))" for p
    using is_ascii_split1[OF is_ascii_lower[OF a] that] c by (simp add: builtins_contract_def)
  show ?thesis
  proof (cases "split1 120 (ascii_lower size_flag)")
    case Nil
    then show ?thesis by (simp add: detect_size_def l ascii_builtins_def)
  next
    case (Cons ws rest)
    note outer = Cons
    show ?thesis
    proof (cases rest)
      case Nil
      with outer show ?thesis by (simp add: detect_size_def l ascii_builtins_def)
    next
      case (Cons hs more)
      with outer i[of ws] i[of hs] show ?thesis
        by (cases more) (auto simp: detect_size_def l ascii_builtins_def split: option.splits)
    qed
  qed
qed

lemma split1_cut: "sep \<notin> set ws \<Longrightarrow> split1 sep (ws @ sep # hs) = [ws, hs]"
  by (induction ws) (auto simp: split1_def)

lemma split1_none: "sep \<notin> set s \<Longrightarrow> split1 sep s = [s]"
  by (simp add: split1_def)

lemma split1_shape:
  "sep \<in> set s \<Longrightarrow> \<exists>ws hs. s = ws @ sep # hs \<and> sep \<notin> set ws \<and> split1 sep s = [ws, hs]"
proof -
  assume "sep \<in> set s"
  then obtain ws hs where "s = ws @ sep # hs" "sep \<notin> set ws" by (meson split_list_first)
  then show ?thesis using split1_cut by blast
qed

lemma detect_size_parts:
  assumes "size_flag \<noteq> ascii ''auto''"
    and "lower bi size_flag = ws @ 120 # hs" and "120 \<notin> set ws"
    and "int_str bi ws = Some w" and "int_str bi hs = Some h"
  shows "detect_size bi t size_flag = Inr (w, h)"
  using assms by (simp add: detect_size_def split1_cut)

lemma detect_size_error:
  assumes "size_flag \<noteq> ascii ''auto''"
    and "\<not> (\<exists>ws hs w h. lower bi size_flag = ws @ 120 # hs \<and> 120 \<notin> set ws \<and>
              int_str bi ws = Some w \<and> int_str bi hs = Some h)"
  shows "detect_size bi t size_flag = Inl ArgumentTypeError"
proof (cases "120 \<in> set (lower bi size_flag)")
  case False
  with assms(1) show ?thesis by (simp add: detect_size_def split1_none)
next
  case True
  from split1_shape[OF this] obtain ws hs where
    e: "lower bi size_flag = ws @ 120 # hs" "120 \<notin> set ws"
       "split1 120 (lower bi size_flag) = [ws, hs]"
    by blast
  have "int_str bi ws = None \<or> int_str bi hs = None"
  proof (rule ccontr)
    assume "\<not> (int_str bi ws = None \<or> int_str bi hs = None)"
    then obtain w h where "int_str bi ws = Some w" "int_str bi hs = Some h" by auto
    with e(1,2) assms(2) show False by blast
  qed
  with assms(1) e(3) show ?thesis
    by (auto simp: detect_size_def split: option.splits)
qed

lemma ascii_sizes:
  "is_ascii (ascii ''120x40'')" "is_ascii (ascii ''bogus'')"
  "is_ascii (ascii ''0x0'')" "is_ascii (ascii ''-5x10'')"
  by (simp_all add: is_ascii_def ascii_def)

lemma detect_size_examples:
  "detect_size ascii_builtins t (ascii ''120x40'') = Inr (120, 40)"
  "detect_size ascii_builtins t (ascii ''bogus'') = Inl ArgumentTypeError"
  "detect_size ascii_builtins t (ascii ''0x0'') = Inr (0, 0)"
  "detect_size ascii_builtins t (ascii ''-5x10'') = Inr (- 5, 10)"
  by (simp_all add: detect_size_def ascii_builtins_def ascii_def ascii_lower_def split1_def
      ascii_int_def strip_def is_space_def parse_digits_def is_digit_def)

text \<open>
  The information separators of ASCII (code points 28 to 31) are not white space for
  \<open>int\<close>: a size made of code point 28 followed by \<open>7x5\<close> is refused.
\<close>

lemma detect_size_rejects_separator:
  "detect_size ascii_builtins t [28, 55, 120, 53] = Inl ArgumentTypeError"
  by (simp add: detect_size_def ascii_builtins_def ascii_def ascii_lower_def split1_def
      ascii_int_def strip_def is_space_def parse_digits_def is_digit_def)


lemma main_show_size:
  "detect_size bi t (args_size a) = Inr (w, h) \<Longrightarrow>
   main_show rnd bi a t r =
     Inr (FireworkShow_init w h 0.12 0.92 120, case args_seed a of None \<Rightarrow> r | Some n \<Rightarrow> seed rnd n)"
  by (simp add: main_show_def)

lemma main_size_error:
  "detect_size bi t (args_size a) = Inl e \<Longrightarrow> main rnd bi a t r = ([], Some e)"
  by (simp add: main_def main_show_def)

text \<open>
  Claim C10. For a size string other than \<open>auto\<close> whose lowered text is an integer, an
  \<open>x\<close> and an integer, as \<open>int\<close> reads them, \<open>detect_size\<close> returns exactly these two
  integers, and \<open>main\<close> constructs the show with them: the floors of 40 and 15 and the
  margin of one cell belong to the \<open>auto\<close> branch only. So \<open>0x0\<close> and \<open>-5x10\<close> are
  accepted and give a canvas that is not positive.
\<close>

theorem detect_size_explicit_unvalidated:
  "(size_flag \<noteq> ascii ''auto'' \<and> lower bi size_flag = ws @ 120 # hs \<and> 120 \<notin> set ws \<and>
    int_str bi ws = Some w \<and> int_str bi hs = Some h \<longrightarrow>
      detect_size bi t size_flag = Inr (w, h) \<and>
      (args_size a = size_flag \<longrightarrow>
         main_show rnd bi a t r =
           Inr (FireworkShow_init w h 0.12 0.92 120,
                case args_seed a of None \<Rightarrow> r | Some n \<Rightarrow> seed rnd n))) \<and>
   (builtins_contract bi \<longrightarrow>
      detect_size bi t (ascii ''0x0'') = Inr (0, 0) \<and>
      detect_size bi t (ascii ''-5x10'') = Inr (- 5, 10))"
proof -
  have 1: "detect_size bi t size_flag = Inr (w, h)"
    if "size_flag \<noteq> ascii ''auto''" "lower bi size_flag = ws @ 120 # hs" "120 \<notin> set ws"
      "int_str bi ws = Some w" "int_str bi hs = Some h"
    using that by (rule detect_size_parts)
  have 2: "detect_size bi t (ascii ''0x0'') = Inr (0, 0)"
    "detect_size bi t (ascii ''-5x10'') = Inr (- 5, 10)" if "builtins_contract bi"
    using detect_size_ascii[OF that ascii_sizes(3), of t]
      detect_size_ascii[OF that ascii_sizes(4), of t]
    by (simp_all add: detect_size_examples)
  from 1 2 main_show_size[of bi t a w h rnd r] show ?thesis by auto
qed

theorem detect_size_explicit_unvalidated_witness:
  "ascii ''-5x10'' \<noteq> ascii ''auto'' \<and>
   lower ascii_builtins (ascii ''-5x10'') = ascii ''-5'' @ 120 # ascii ''10'' \<and>
   120 \<notin> set (ascii ''-5'') \<and>
   int_str ascii_builtins (ascii ''-5'') = Some (- 5) \<and>
   int_str ascii_builtins (ascii ''10'') = Some 10 \<and>
   builtins_contract ascii_builtins \<and>
   detect_size ascii_builtins (80, 24) (ascii ''-5x10'') = Inr (- 5, 10) \<and>
   main_show counter_random ascii_builtins
     \<lparr>args_frames = 200, args_interval = 0.06, args_size = ascii ''-5x10'', args_seed = None\<rparr>
     (80, 24) 0 = Inr (FireworkShow_init (- 5) 10 0.12 0.92 120, 0) \<and>
   detect_size ascii_builtins (80, 24) (ascii ''0x0'') = Inr (0, 0)"
proof -
  have h: "ascii ''-5x10'' \<noteq> ascii ''auto''"
    "lower ascii_builtins (ascii ''-5x10'') = ascii ''-5'' @ 120 # ascii ''10''"
    "120 \<notin> set (ascii ''-5'')"
    "int_str ascii_builtins (ascii ''-5'') = Some (- 5)"
    "int_str ascii_builtins (ascii ''10'') = Some 10"
    by (simp_all add: ascii_builtins_def ascii_def ascii_lower_def ascii_int_def strip_def
        is_space_def parse_digits_def is_digit_def)
  from detect_size_explicit_unvalidated[of "ascii ''-5x10''" ascii_builtins "ascii ''-5''"
      "ascii ''10''" "- 5" 10 "(80, 24)"
      "\<lparr>args_frames = 200, args_interval = 0.06, args_size = ascii ''-5x10'', args_seed = None\<rparr>"
      counter_random 0] h ascii_builtins_contract
  show ?thesis by simp
qed

text \<open>
  Claim C9. The size string \<open>120x40\<close> gives the size \<open>(120, 40)\<close>, and \<open>main\<close> constructs
  from it a show with \<open>width = 120\<close> and \<open>height = 40\<close>. A size string that is neither
  \<open>auto\<close> nor an integer, an \<open>x\<close> and an integer, such as \<open>bogus\<close>, makes \<open>detect_size\<close>
  raise its \<open>ArgumentTypeError\<close>; \<open>main\<close> then ends with this exception before it has
  printed anything, and the exit status is not zero.
\<close>

theorem size_argument_handling:
  "(builtins_contract bi \<longrightarrow>
      detect_size bi t (ascii ''120x40'') = Inr (120, 40) \<and>
      (args_size a = ascii ''120x40'' \<longrightarrow>
         main_show rnd bi a t r =
           Inr (\<lparr>width = 120, height = 40, gravity = 0.12, damping = 0.92, sparks = 120,
                  particles = [], frame_counter = 0\<rparr>,
                case args_seed a of None \<Rightarrow> r | Some n \<Rightarrow> seed rnd n)) \<and>
      detect_size bi t (ascii ''bogus'') = Inl ArgumentTypeError \<and>
      (args_size a = ascii ''bogus'' \<longrightarrow>
         main rnd bi a t r = ([], Some ArgumentTypeError) \<and>
         exit_status (main rnd bi a t r) \<noteq> 0)) \<and>
   (size_flag \<noteq> ascii ''auto'' \<and>
    \<not> (\<exists>ws hs w h. lower bi size_flag = ws @ 120 # hs \<and> 120 \<notin> set ws \<and>
           int_str bi ws = Some w \<and> int_str bi hs = Some h) \<longrightarrow>
      detect_size bi t size_flag = Inl ArgumentTypeError \<and>
      (args_size a = size_flag \<longrightarrow>
         main rnd bi a t r = ([], Some ArgumentTypeError) \<and>
         exit_status (main rnd bi a t r) \<noteq> 0))"
proof -
  have 1: "detect_size bi t (ascii ''120x40'') = Inr (120, 40)"
    "detect_size bi t (ascii ''bogus'') = Inl ArgumentTypeError" if "builtins_contract bi"
    using detect_size_ascii[OF that ascii_sizes(1), of t]
      detect_size_ascii[OF that ascii_sizes(2), of t]
    by (simp_all add: detect_size_examples)
  have 2: "main_show rnd bi a t r =
      Inr (\<lparr>width = 120, height = 40, gravity = 0.12, damping = 0.92, sparks = 120,
             particles = [], frame_counter = 0\<rparr>,
           case args_seed a of None \<Rightarrow> r | Some n \<Rightarrow> seed rnd n)"
    if "builtins_contract bi" "args_size a = ascii ''120x40''"
    using main_show_size[of bi t a 120 40 rnd r] 1(1)[OF that(1)] that(2)
    by (simp add: FireworkShow_init_def)
  have 3: "exit_status ([], Some ArgumentTypeError) \<noteq> 0"
    by (simp add: exit_status_def)
  have 4: "main rnd bi a t r = ([], Some ArgumentTypeError)"
    if "detect_size bi t (args_size a) = Inl ArgumentTypeError"
    using that by (rule main_size_error)
  show ?thesis
    using 1 2 3 4 detect_size_error[of size_flag bi t]
    by auto
qed

theorem size_argument_handling_witness:
  "builtins_contract ascii_builtins \<and>
   main_show counter_random ascii_builtins
     \<lparr>args_frames = 200, args_interval = 0.06, args_size = ascii ''120x40'', args_seed = Some 7\<rparr>
     (80, 24) 0 =
     Inr (\<lparr>width = 120, height = 40, gravity = 0.12, damping = 0.92, sparks = 120,
            particles = [], frame_counter = 0\<rparr>, 7) \<and>
   ascii ''bogus'' \<noteq> ascii ''auto'' \<and>
   120 \<notin> set (lower ascii_builtins (ascii ''bogus'')) \<and>
   main counter_random ascii_builtins
     \<lparr>args_frames = 200, args_interval = 0.06, args_size = ascii ''bogus'', args_seed = None\<rparr>
     (80, 24) 0 = ([], Some ArgumentTypeError) \<and>
   exit_status (main counter_random ascii_builtins
     \<lparr>args_frames = 200, args_interval = 0.06, args_size = ascii ''bogus'', args_seed = None\<rparr>
     (80, 24) 0) \<noteq> 0"
proof -
  have h: "ascii ''bogus'' \<noteq> ascii ''auto''"
    "120 \<notin> set (lower ascii_builtins (ascii ''bogus''))"
    by (simp_all add: ascii_def ascii_lower_def ascii_builtins_def)
  from h(2) have n: "\<not> (\<exists>ws hs w h. lower ascii_builtins (ascii ''bogus'') = ws @ 120 # hs \<and>
      120 \<notin> set ws \<and> int_str ascii_builtins ws = Some w \<and> int_str ascii_builtins hs = Some h)"
    by auto
  from size_argument_handling[of ascii_builtins "(80, 24)"
      "\<lparr>args_frames = 200, args_interval = 0.06, args_size = ascii ''120x40'', args_seed = Some 7\<rparr>"
      counter_random 0 "ascii ''bogus''"]
    size_argument_handling[of ascii_builtins "(80, 24)"
      "\<lparr>args_frames = 200, args_interval = 0.06, args_size = ascii ''bogus'', args_seed = None\<rparr>"
      counter_random 0 "ascii ''bogus''"]
    h n ascii_builtins_contract
  show ?thesis by (simp add: exit_status_def counter_random_def)
qed

section \<open>Determinism of a seeded run\<close>





section \<open>The frame that \<open>render\<close> returns\<close>

lemma list_all_update:
  "list_all P xs \<Longrightarrow> P v \<Longrightarrow> list_all P (xs[i := v])"
  unfolding list_all_iff using set_update_subset_insert[of xs i v] by auto

lemma row_update_ok:
  assumes "row_ok w (row, colour_row)" and "g \<in> set GLYPHS"
  shows "row_ok w (row[j := g], colour_row[j := Some c])"
proof -
  have "cell_ok (g, Some c)" using assms(2) by (simp add: cell_ok_def)
  with assms(1) show ?thesis
    by (simp add: row_ok_def zip_update list_all_update)
qed

lemma grid_update_ok:
  assumes "grid_ok h w (canvas, colour_map)" and "g \<in> set GLYPHS"
  shows "grid_ok h w (canvas[i := (canvas ! i)[j := g]],
                      colour_map[i := (colour_map ! i)[j := Some c]])"
proof (cases "i < h")
  case False
  with assms(1) show ?thesis by (simp add: grid_ok_def list_update_beyond)
next
  case True
  from assms(1) have l: "length canvas = h" "length colour_map = h"
    and a: "list_all (row_ok w) (zip canvas colour_map)"
    by (simp_all add: grid_ok_def)
  from True l have "(canvas ! i, colour_map ! i) \<in> set (zip canvas colour_map)"
    by (metis length_zip min.idem nth_mem nth_zip)
  with a have "row_ok w (canvas ! i, colour_map ! i)" by (simp add: list_all_iff)
  from row_update_ok[OF this assms(2)]
  have "row_ok w ((canvas ! i)[j := g], (colour_map ! i)[j := Some c])" .
  with a l show ?thesis by (simp add: grid_ok_def zip_update list_all_update)
qed

lemma render_loop_grid_ok:
  assumes c: "random_contract rnd"
  shows "grid_ok h w g \<Longrightarrow> grid_ok h w (fst (render_loop rnd g ps (s, r)))"
proof (induction ps arbitrary: g r)
  case Nil
  then show ?case by (cases g) simp
next
  case (Cons p ps)
  obtain canvas colour_map where g: "g = (canvas, colour_map)" by (cases g)
  have gl: "fst (choice rnd GLYPHS r) \<in> set GLYPHS"
    using contract_choice[OF c, of GLYPHS r] by (simp add: GLYPHS_def)
  show ?case
  proof (cases "0 \<le> int_float (x p) \<and> int_float (x p) < width s \<and>
                0 \<le> int_float (y p) \<and> int_float (y p) < height s")
    case True
    from grid_update_ok[OF Cons.prems[unfolded g] gl]
    have "grid_ok h w (canvas[nat (int_float (y p)) := (canvas ! nat (int_float (y p)))
              [nat (int_float (x p)) := fst (choice rnd GLYPHS r)]],
            colour_map[nat (int_float (y p)) := (colour_map ! nat (int_float (y p)))
              [nat (int_float (x p)) := Some (colour p)]])" .
    from Cons.IH[OF this] True show ?thesis
      by (simp add: g Let_def split_def)
  next
    case False
    then have "render_loop rnd (canvas, colour_map) (p # ps) (s, r) =
               render_loop rnd (canvas, colour_map) ps (s, r)"
      by (simp only: render_loop.simps Let_def if_False)
    with Cons.IH[OF Cons.prems] show ?thesis
      by (simp only: g)
  qed
qed

lemma grid_ok_blank:
  "grid_ok h w (replicate h (replicate w [32]), replicate h (replicate w None))"
  by (simp add: grid_ok_def row_ok_def cell_ok_def list_all_iff)


lemma str_nat_no_newline: "10 \<notin> set (str_nat n)"
proof (induction n rule: str_nat.induct)
  case (1 n)
  show ?case
  proof (cases "n < 10")
    case True
    then show ?thesis by (subst str_nat.simps) simp
  next
    case False
    with 1 show ?thesis by (subst str_nat.simps) simp
  qed
qed

lemma str_int_no_newline: "10 \<notin> set (str_int i)"
  by (simp add: str_int_def str_nat_no_newline)

lemma glyph_no_newline: "g \<in> set GLYPHS \<Longrightarrow> 10 \<notin> set g"
  by (auto simp: GLYPHS_def)

lemma rendered_cell_no_newline: "rendered_cell c \<Longrightarrow> 10 \<notin> set c"
  by (auto simp: rendered_cell_def ascii_def str_int_no_newline dest: glyph_no_newline)

lemma format_cell_rendered: "cell_ok c \<Longrightarrow> rendered_cell (format_cell c)"
  by (cases c) (auto simp: cell_ok_def format_cell_def rendered_cell_def)

lemma split_on_line: "sep \<notin> set l \<Longrightarrow> split_on sep l = [l]"
  by (induction l) auto

lemma split_on_cut: "sep \<notin> set l \<Longrightarrow> split_on sep (l @ sep # rest) = l # split_on sep rest"
  by (induction l) auto

lemma split_on_join:
  "ls \<noteq> [] \<Longrightarrow> list_all (\<lambda>l. sep \<notin> set l) ls \<Longrightarrow> split_on sep (join [sep] ls) = ls"
proof (induction ls)
  case Nil
  then show ?case by simp
next
  case (Cons l ls)
  show ?case
  proof (cases ls)
    case Nil
    with Cons.prems show ?thesis by (simp add: split_on_line)
  next
    case (Cons m ms)
    with Cons.prems Cons.IH show ?thesis by (simp add: split_on_cut)
  qed
qed

lemma grid_ok_rows:
  assumes "grid_ok h w (canvas, colour_map)" and "i < h"
  shows "length (canvas ! i) = w \<and> length (colour_map ! i) = w"
proof -
  from assms have l: "length canvas = h" "length colour_map = h"
    and a: "list_all (row_ok w) (zip canvas colour_map)"
    by (simp_all add: grid_ok_def)
  from assms(2) l have "(canvas ! i, colour_map ! i) \<in> set (zip canvas colour_map)"
    by (metis length_zip min.idem nth_mem nth_zip)
  with a have "row_ok w (canvas ! i, colour_map ! i)" by (simp add: list_all_iff)
  then show ?thesis by (simp add: row_ok_def)
qed

lemma format_canvas_cells:
  assumes "grid_ok h w (canvas, colour_map)"
  shows "\<exists>cells. length cells = h \<and>
           list_all (\<lambda>row. length row = w \<and> list_all rendered_cell row) cells \<and>
           format_canvas canvas colour_map = join [10] (map concat cells) \<and>
           (\<forall>i j. i < h \<and> j < w \<longrightarrow>
              cells ! i ! j = format_cell (cell_at (canvas, colour_map) i j))"
proof -
  define cells where
    "cells = map (\<lambda>(row, colour_row). map format_cell (zip row colour_row)) (zip canvas colour_map)"
  from assms have l: "length canvas = h" "length colour_map = h"
    and a: "list_all (row_ok w) (zip canvas colour_map)"
    by (simp_all add: grid_ok_def)
  have 1: "length cells = h" using l by (simp add: cells_def)
  have r: "length (map format_cell (zip row colour_row)) = w \<and>
           list_all rendered_cell (map format_cell (zip row colour_row))"
    if "row_ok w (row, colour_row)" for row colour_row
    using that by (auto simp: row_ok_def list_all_iff format_cell_rendered)
  have 2: "list_all (\<lambda>row. length row = w \<and> list_all rendered_cell row) cells"
    unfolding cells_def list_all_iff
  proof
    fix cs assume "cs \<in> set (map (\<lambda>(row, colour_row). map format_cell (zip row colour_row))
                               (zip canvas colour_map))"
    then obtain row colour_row where m: "(row, colour_row) \<in> set (zip canvas colour_map)"
      and cs: "cs = map format_cell (zip row colour_row)" by auto
    from a m have "row_ok w (row, colour_row)" by (simp add: list_all_iff)
    from r[OF this] cs show "length cs = w \<and> (\<forall>c\<in>set cs. rendered_cell c)"
      by (simp add: list_all_iff)
  qed
  have 3: "format_canvas canvas colour_map = join [10] (map concat cells)"
    by (simp add: format_canvas_def cells_def split_def comp_def)
  have 4: "cells ! i ! j = format_cell (cell_at (canvas, colour_map) i j)"
    if "i < h" "j < w" for i j
  proof -
    from grid_ok_rows[OF assms that(1)]
    have rl: "length (canvas ! i) = w" "length (colour_map ! i) = w" by simp_all
    from that(1) l have "cells ! i = map format_cell (zip (canvas ! i) (colour_map ! i))"
      by (simp add: cells_def)
    with rl that(2) show ?thesis by (simp add: cell_at_def)
  qed
  from 1 2 3 4 show ?thesis by blast
qed

lemma cell_at_update:
  assumes "grid_ok h w (canvas, colour_map)" and "i < h" and "j < w"
  shows "cell_at (canvas[a := (canvas ! a)[b := v]], colour_map[a := (colour_map ! a)[b := u]]) i j =
         (if i = a \<and> j = b then (v, u) else cell_at (canvas, colour_map) i j)"
proof -
  from assms(1) have l: "length canvas = h" "length colour_map = h"
    by (simp_all add: grid_ok_def)
  from grid_ok_rows[OF assms(1,2)]
  have rl: "length (canvas ! i) = w" "length (colour_map ! i) = w" by simp_all
  show ?thesis
  proof (cases "a = i")
    case True
    with l assms(2,3) rl show ?thesis
      by (simp add: cell_at_def nth_list_update)
  next
    case False
    then show ?thesis by (simp add: cell_at_def)
  qed
qed

lemma render_loop_cells:
  assumes c: "random_contract rnd"
    and h: "h = nat (height s)" and w: "w = nat (width s)" and i: "i < h" and j: "j < w"
  shows "grid_ok h w g \<Longrightarrow>
         (case occupant ps (int i) (int j) of
            None \<Rightarrow> cell_at (fst (render_loop rnd g ps (s, r))) i j = cell_at g i j
          | Some q \<Rightarrow>
              fst (cell_at (fst (render_loop rnd g ps (s, r))) i j) \<in> set GLYPHS \<and>
              snd (cell_at (fst (render_loop rnd g ps (s, r))) i j) = Some (colour q))"
proof (induction ps arbitrary: g r)
  case Nil
  then show ?case by (cases g) simp
next
  case (Cons p ps)
  obtain canvas colour_map where g: "g = (canvas, colour_map)" by (cases g)
  define ix where "ix = int_float (x p)"
  define iy where "iy = int_float (y p)"
  define ch where "ch = fst (choice rnd GLYPHS r)"
  define r1 where "r1 = snd (choice rnd GLYPHS r)"
  define g1 where "g1 = (canvas[nat iy := (canvas ! nat iy)[nat ix := ch]],
      colour_map[nat iy := (colour_map ! nat iy)[nat ix := Some (colour p)]])"
  have gl: "ch \<in> set GLYPHS"
    unfolding ch_def using contract_choice[OF c, of GLYPHS r] by (simp add: GLYPHS_def)
  have ok: "grid_ok h w (canvas, colour_map)" using Cons.prems g by simp
  have ok1: "grid_ok h w g1" unfolding g1_def by (rule grid_update_ok[OF ok gl])
  have occ: "occupant (p # ps) (int i) (int j) =
      (case occupant ps (int i) (int j) of
         Some q \<Rightarrow> Some q
       | None \<Rightarrow> if ix = int j \<and> iy = int i then Some p else None)"
    by (auto simp: ix_def iy_def split: option.splits)
  show ?case
  proof (cases "0 \<le> ix \<and> ix < width s \<and> 0 \<le> iy \<and> iy < height s")
    case True
    have step: "render_loop rnd g (p # ps) (s, r) = render_loop rnd g1 ps (s, r1)"
      using True by (simp add: g g1_def ix_def iy_def ch_def r1_def Let_def split_def)
    have at: "(i = nat iy \<and> j = nat ix) = (ix = int j \<and> iy = int i)"
      using True by auto
    have c1: "cell_at g1 i j =
        (if ix = int j \<and> iy = int i then (ch, Some (colour p)) else cell_at g i j)"
      unfolding g1_def g using cell_at_update[OF ok i j, of "nat iy" "nat ix" ch "Some (colour p)"] at
      by simp
    show ?thesis
    proof (cases "occupant ps (int i) (int j)")
      case None
      with Cons.IH[OF ok1, of r1] have "cell_at (fst (render_loop rnd g1 ps (s, r1))) i j = cell_at g1 i j"
        by simp
      with c1 None gl show ?thesis by (simp add: occ step del: occupant.simps)
    next
      case (Some q)
      with Cons.IH[OF ok1, of r1] show ?thesis by (simp add: occ step del: occupant.simps)
    qed
  next
    case False
    have step: "render_loop rnd g (p # ps) (s, r) = render_loop rnd g ps (s, r)"
      using False unfolding g ix_def iy_def by (auto simp: Let_def)
    have not_at: "\<not> (ix = int j \<and> iy = int i)"
    proof
      assume "ix = int j \<and> iy = int i"
      with i j h w have "0 \<le> ix \<and> ix < width s \<and> 0 \<le> iy \<and> iy < height s" by auto
      with False show False by simp
    qed
    show ?thesis
    proof (cases "occupant ps (int i) (int j)")
      case None
      from None not_at have "occupant (p # ps) (int i) (int j) = None"
        unfolding occ by simp
      with None Cons.IH[OF Cons.prems, of r] show ?thesis
        by (simp add: step del: occupant.simps)
    next
      case (Some q)
      with Cons.IH[OF Cons.prems, of r] show ?thesis by (simp add: occ step del: occupant.simps)
    qed
  qed
qed

lemma line_no_newline:
  "list_all rendered_cell row \<Longrightarrow> 10 \<notin> set (concat row)"
  by (auto simp: list_all_iff dest: rendered_cell_no_newline)

lemma render_blank:
  "particles s = [] \<Longrightarrow>
   fst (render rnd (s, r)) =
     join [10] (replicate (nat (height s)) (replicate (nat (width s)) 32))"
  by (simp add: render_def format_canvas_def format_cell_def)


text \<open>
  Claim C7. For a show with a positive \<open>height\<close> and a \<open>width\<close> that is not negative,
  \<open>render\<close> returns \<open>height\<close> lines joined by newlines: there is a grid of \<open>height\<close> rows
  of \<open>width\<close> cells whose rows, concatenated, are the lines of the frame, and splitting
  the frame at the newlines gives these lines back. The cell of row \<open>i\<close> and column \<open>j\<close>
  is a space when no particle of the show has this cell as its truncated position;
  otherwise it is one of the four glyphs between the colour escape of the last such
  particle and a reset. With no live particle the frame is \<open>height\<close> lines of \<open>width\<close>
  spaces.
\<close>

theorem render_lines:
  assumes "random_contract rnd" and "0 < height s" and "0 \<le> width s"
  shows "(\<exists>cells. int (length cells) = height s \<and>
            list_all (\<lambda>row. int (length row) = width s \<and> list_all rendered_cell row) cells \<and>
            (\<forall>i j. i < nat (height s) \<and> j < nat (width s) \<longrightarrow>
               (case occupant (particles s) (int i) (int j) of
                  None \<Rightarrow> cells ! i ! j = [32]
                | Some p \<Rightarrow>
                    \<exists>g\<in>set GLYPHS.
                      cells ! i ! j =
                        27 # ascii ''[38;5;'' @ str_int (colour p) @ ascii ''m'' @ g @
                        27 # ascii ''[0m'')) \<and>
            fst (render rnd (s, r)) = join [10] (map concat cells) \<and>
            split_on 10 (fst (render rnd (s, r))) = map concat cells) \<and>
         (particles s = [] \<longrightarrow>
            fst (render rnd (s, r)) =
              join [10] (replicate (nat (height s)) (replicate (nat (width s)) 32)))"
proof -
  define g0 where "g0 = (replicate (nat (height s)) (replicate (nat (width s)) [32::nat]),
      replicate (nat (height s)) (replicate (nat (width s)) (None :: int option)))"
  obtain canvas colour_map where
    e: "fst (render_loop rnd g0 (particles s) (s, r)) = (canvas, colour_map)"
    by (metis surj_pair)
  have ok0: "grid_ok (nat (height s)) (nat (width s)) g0"
    unfolding g0_def by (rule grid_ok_blank)
  from render_loop_grid_ok[OF assms(1) ok0, of "particles s" s r] e
  have ok: "grid_ok (nat (height s)) (nat (width s)) (canvas, colour_map)" by simp
  have f: "fst (render rnd (s, r)) = format_canvas canvas colour_map"
    using e by (simp add: render_def g0_def split_def Let_def)
  from format_canvas_cells[OF ok] obtain cells where
    c: "length cells = nat (height s)"
      "list_all (\<lambda>row. length row = nat (width s) \<and> list_all rendered_cell row) cells"
      "format_canvas canvas colour_map = join [10] (map concat cells)"
      "\<forall>i j. i < nat (height s) \<and> j < nat (width s) \<longrightarrow>
         cells ! i ! j = format_cell (cell_at (canvas, colour_map) i j)"
    by blast
  from c(1) assms(2) have ne: "map concat cells \<noteq> []" by auto
  have nl: "list_all (\<lambda>l. 10 \<notin> set l) (map concat cells)"
    unfolding list_all_iff
  proof
    fix l assume "l \<in> set (map concat cells)"
    then obtain row where "row \<in> set cells" and l: "l = concat row" by auto
    with c(2) have "list_all rendered_cell row" by (simp add: list_all_iff)
    from line_no_newline[OF this] l show "10 \<notin> set l" by simp
  qed
  from split_on_join[OF ne nl] c(3) f
  have sp: "split_on 10 (fst (render rnd (s, r))) = map concat cells" by simp
  from c(1) assms(2) have 1: "int (length cells) = height s" by simp
  from c(2) assms(3)
  have 2: "list_all (\<lambda>row. int (length row) = width s \<and> list_all rendered_cell row) cells"
    by (auto simp: list_all_iff)
  have 3: "case occupant (particles s) (int i) (int j) of
             None \<Rightarrow> cells ! i ! j = [32]
           | Some p \<Rightarrow>
               \<exists>g\<in>set GLYPHS.
                 cells ! i ! j =
                   27 # ascii ''[38;5;'' @ str_int (colour p) @ ascii ''m'' @ g @
                   27 # ascii ''[0m''"
    if ij: "i < nat (height s) \<and> j < nat (width s)" for i j
  proof -
    from ij have i: "i < nat (height s)" and j: "j < nat (width s)" by simp_all
    have b: "cell_at g0 i j = ([32], None)"
      using i j by (simp add: g0_def cell_at_def)
    note rl = render_loop_cells[OF assms(1) refl refl i j ok0, of "particles s" r]
    from c(4) ij
    have fc: "cells ! i ! j = format_cell (cell_at (canvas, colour_map) i j)" by blast
    show ?thesis
    proof (cases "occupant (particles s) (int i) (int j)")
      case None
      with rl e b have "cell_at (canvas, colour_map) i j = ([32], None)" by simp
      with fc None show ?thesis by (simp add: format_cell_def)
    next
      case (Some p)
      define gl where "gl = fst (cell_at (canvas, colour_map) i j)"
      from Some rl e have g: "gl \<in> set GLYPHS"
        and k: "snd (cell_at (canvas, colour_map) i j) = Some (colour p)"
        by (simp_all add: gl_def)
      from g have n: "gl \<noteq> [32]" by (auto simp: GLYPHS_def)
      from k have "cell_at (canvas, colour_map) i j = (gl, Some (colour p))"
        by (simp add: gl_def prod_eq_iff)
      with fc n have "cells ! i ! j =
          27 # ascii ''[38;5;'' @ str_int (colour p) @ ascii ''m'' @ gl @ 27 # ascii ''[0m''"
        by (simp add: format_cell_def)
      with g Some show ?thesis by auto
    qed
  qed
  from 1 2 3 c(3) f sp have "\<exists>cells. int (length cells) = height s \<and>
            list_all (\<lambda>row. int (length row) = width s \<and> list_all rendered_cell row) cells \<and>
            (\<forall>i j. i < nat (height s) \<and> j < nat (width s) \<longrightarrow>
               (case occupant (particles s) (int i) (int j) of
                  None \<Rightarrow> cells ! i ! j = [32]
                | Some p \<Rightarrow>
                    \<exists>g\<in>set GLYPHS.
                      cells ! i ! j =
                        27 # ascii ''[38;5;'' @ str_int (colour p) @ ascii ''m'' @ g @
                        27 # ascii ''[0m'')) \<and>
            fst (render rnd (s, r)) = join [10] (map concat cells) \<and>
            split_on 10 (fst (render rnd (s, r))) = map concat cells"
    by (intro exI[of _ cells]) simp
  with render_blank[of s rnd r] show ?thesis by blast
qed

theorem render_lines_witness:
  "random_contract counter_random \<and>
   0 < height ((FireworkShow_init 3 2 0.12 0.92 1)
         \<lparr>particles := [\<lparr>x = 1.5, y = 0.2, vx = 0, vy = 0, life = 5, colour = 196\<rparr>]\<rparr>) \<and>
   0 \<le> width ((FireworkShow_init 3 2 0.12 0.92 1)
         \<lparr>particles := [\<lparr>x = 1.5, y = 0.2, vx = 0, vy = 0, life = 5, colour = 196\<rparr>]\<rparr>) \<and>
   (\<exists>cells g.
      g \<in> set GLYPHS \<and>
      cells ! 0 ! 1 = 27 # ascii ''[38;5;'' @ str_int 196 @ ascii ''m'' @ g @ 27 # ascii ''[0m'' \<and>
      cells ! 0 ! 0 = [32] \<and> cells ! 1 ! 1 = [32] \<and>
      fst (render counter_random
             ((FireworkShow_init 3 2 0.12 0.92 1)
                \<lparr>particles := [\<lparr>x = 1.5, y = 0.2, vx = 0, vy = 0, life = 5, colour = 196\<rparr>]\<rparr>, 0)) =
        join [10] (map concat cells)) \<and>
   fst (render counter_random
          ((FireworkShow_init 3 2 0.12 0.92 1)
             \<lparr>particles := [\<lparr>x = 1.5, y = 0.2, vx = 0, vy = 0, life = 5, colour = 196\<rparr>]\<rparr>, 0)) =
     [32, 27, 91, 51, 56, 59, 53, 59, 49, 57, 54, 109, 42, 27, 91, 48, 109, 32, 10, 32, 32, 32]"
proof -
  define s0 where "s0 = (FireworkShow_init 3 2 0.12 0.92 1)
      \<lparr>particles := [\<lparr>x = 1.5, y = 0.2, vx = 0, vy = 0, life = 5, colour = 196\<rparr>]\<rparr>"
  have h: "0 < height s0" "0 \<le> width s0"
    by (simp_all add: s0_def FireworkShow_init_def)
  have hw: "nat (height s0) = 2" "nat (width s0) = 3"
    by (simp_all add: s0_def FireworkShow_init_def)
  have o: "occupant (particles s0) (int 0) (int 1) =
             Some \<lparr>x = 1.5, y = 0.2, vx = 0, vy = 0, life = 5, colour = 196\<rparr>"
    "occupant (particles s0) (int 0) (int 0) = None"
    "occupant (particles s0) (int 1) (int 1) = None"
    by (simp_all add: s0_def int_float_def)
  from render_lines[OF counter_random_contract h, of 0] obtain cells where
    c: "\<forall>i j. i < nat (height s0) \<and> j < nat (width s0) \<longrightarrow>
          (case occupant (particles s0) (int i) (int j) of
             None \<Rightarrow> cells ! i ! j = [32]
           | Some p \<Rightarrow>
               \<exists>g\<in>set GLYPHS.
                 cells ! i ! j =
                   27 # ascii ''[38;5;'' @ str_int (colour p) @ ascii ''m'' @ g @
                   27 # ascii ''[0m'')"
      and j: "fst (render counter_random (s0, 0)) = join [10] (map concat cells)"
    by blast
  from c[rule_format, of 0 1] o(1) hw obtain g where
    g: "g \<in> set GLYPHS"
      "cells ! 0 ! 1 = 27 # ascii ''[38;5;'' @ str_int 196 @ ascii ''m'' @ g @ 27 # ascii ''[0m''"
    by auto
  from c[rule_format, of 0 0] o(2) hw have b0: "cells ! 0 ! 0 = [32]" by simp
  from c[rule_format, of 1 1] o(3) hw have b1: "cells ! 1 ! 1 = [32]" by simp
  have fr: "fst (render counter_random (s0, 0)) =
     [32, 27, 91, 51, 56, 59, 53, 59, 49, 57, 54, 109, 42, 27, 91, 48, 109, 32, 10, 32, 32, 32]"
  proof -
    have r2: "replicate 2 v = [v, v]" "replicate 3 v = [v, v, v]" for v :: 'a
      by (simp_all add: eval_nat_numeral)
    have s196: "str_int 196 = [49, 57, 54]"
      by (simp add: str_int_def str_nat.simps)
    show ?thesis
      by (simp add: s0_def render_def FireworkShow_init_def r2 int_float_def
          counter_random_def GLYPHS_def format_canvas_def format_cell_def ascii_def s196
          Let_def)
  qed
  from g b0 b1 j have "\<exists>cells g.
      g \<in> set GLYPHS \<and>
      cells ! 0 ! 1 = 27 # ascii ''[38;5;'' @ str_int 196 @ ascii ''m'' @ g @ 27 # ascii ''[0m'' \<and>
      cells ! 0 ! 0 = [32] \<and> cells ! 1 ! 1 = [32] \<and>
      fst (render counter_random (s0, 0)) = join [10] (map concat cells)"
    by blast
  with counter_random_contract h fr show ?thesis unfolding s0_def by simp
qed

end
